theory Spec2Isabelle
  imports Main "HOL-Library.AList"
begin

section \<open>Strings, lines and the Python string operations used by prebuilt.py\<close>

text \<open>
  Python 2 byte strings are modelled as \<^typ>\<open>string\<close>.  The newline character is
  \<open>CHR 0x0A\<close>.
\<close>

abbreviation nl :: char where
  "nl \<equiv> CHR 0x0A"

text \<open>
  Iterating over a file object (\<^verbatim>\<open>for line in file_fh\<close>) yields the lines of the file,
  each still carrying its terminating newline; only the last line may lack one.
\<close>

fun file_iter :: "string \<Rightarrow> string list" where
  "file_iter [] = []"
| "file_iter (c # cs) =
     (if c = nl then [c] # file_iter cs
      else (case file_iter cs of [] \<Rightarrow> [[c]] | l # ls \<Rightarrow> (c # l) # ls))"

text \<open>\<^verbatim>\<open>s.rstrip(chars)\<close>: drop every trailing character that satisfies the predicate.\<close>

definition rstrip :: "(char \<Rightarrow> bool) \<Rightarrow> string \<Rightarrow> string" where
  "rstrip P s = rev (dropWhile P (rev s))"

text \<open>
  \<^verbatim>\<open>s.split(d)\<close> for a one-character separator: the pieces between the separators;
  a string with \<open>n\<close> separators has \<open>n + 1\<close> pieces, the empty string has one.
\<close>

fun split_on :: "char \<Rightarrow> string \<Rightarrow> string list" where
  "split_on d [] = [[]]"
| "split_on d (c # cs) =
     (if c = d then [] # split_on d cs
      else (case split_on d cs of [] \<Rightarrow> [[c]] | p # ps \<Rightarrow> (c # p) # ps))"

text \<open>\<^verbatim>\<open>sep.join(xs)\<close>.\<close>

fun join :: "string \<Rightarrow> string list \<Rightarrow> string" where
  "join sep [] = []"
| "join sep [x] = x"
| "join sep (x # y # ys) = x @ sep @ join sep (y # ys)"

section \<open>UpdateLocalFile\<close>

text \<open>
  The three variables the loop of \<^verbatim>\<open>UpdateLocalFile\<close> updates: the output lines, the
  flag \<^verbatim>\<open>found\<close> and the local variable \<^verbatim>\<open>value\<close>, which the loop overwrites with its
  quoted form each time the key is met.
\<close>

record loop_state =
  file_lines :: "string list"
  found :: bool
  val :: string

text \<open>\<^verbatim>\<open>keyval_str % {'key': k, 'value': v}\<close> with \<^verbatim>\<open>keyval_str = '%(key)s=%(value)s'\<close>.\<close>

definition keyval_str :: "string \<Rightarrow> string \<Rightarrow> string" where
  "keyval_str k v = k @ ''='' @ v"

text \<open>\<^verbatim>\<open>'"%s"' % value\<close>.\<close>

definition quoted :: "string \<Rightarrow> string" where
  "quoted v = [CHR 0x22] @ v @ [CHR 0x22]"

text \<open>One iteration of the \<^verbatim>\<open>for line in file_fh\<close> loop (lines 98 to 114).\<close>

definition loop_body :: "string \<Rightarrow> loop_state \<Rightarrow> string \<Rightarrow> loop_state" where
  "loop_body key st raw =
     (let line = rstrip (\<lambda>c. c = nl) raw in
      if length (split_on (CHR ''='') line) \<noteq> 2
      then st\<lparr>file_lines := file_lines st @ [line]\<rparr>
      else
        let file_var = split_on (CHR ''='') line ! 0;
            file_val = split_on (CHR ''='') line ! 1
        in if file_var = key
           then let value' = quoted (val st)
                in st\<lparr>file_lines := file_lines st @ [keyval_str key value'],
                      found := True, val := value'\<rparr>
           else st\<lparr>file_lines := file_lines st @ [keyval_str file_var file_val]\<rparr>)"

text \<open>
  \<^verbatim>\<open>UpdateLocalFile(filename, value, key)\<close> as a function of the contents of the file named
  \<^verbatim>\<open>filename\<close>: the result is the text written back to that file (line 122).
\<close>

definition UpdateLocalFile :: "string \<Rightarrow> string \<Rightarrow> string \<Rightarrow> string" where
  "UpdateLocalFile contents value key =
     (let st = foldl (loop_body key)
                 \<lparr>file_lines = [], found = False, val = value\<rparr> (file_iter contents);
          out = (if \<not> found st then file_lines st @ [keyval_str key (val st)]
                 else file_lines st)
      in join [nl] out @ [nl])"

section \<open>Notions used to state the properties of UpdateLocalFile\<close>

text \<open>
  The lines the loop works on: the lines of the file with the trailing newline removed.
  A line is foreign when it does not split into exactly two parts at \<open>=\<close>; it is a line
  for \<open>key\<close> when it splits into exactly two parts and the left one is \<open>key\<close>.
\<close>

definition foreign :: "string \<Rightarrow> bool" where
  "foreign l \<longleftrightarrow> length (split_on (CHR ''='') l) \<noteq> 2"

definition key_line :: "string \<Rightarrow> string \<Rightarrow> bool" where
  "key_line key l \<longleftrightarrow>
     length (split_on (CHR ''='') l) = 2 \<and> split_on (CHR ''='') l ! 0 = key"

definition stripped_lines :: "string \<Rightarrow> string list" where
  "stripped_lines contents = map (rstrip (\<lambda>c. c = nl)) (file_iter contents)"

text \<open>
  What the loop does to the list of lines, written without the accumulator: the \<open>n\<close>-th line
  for the key receives the value wrapped in \<open>n\<close> pairs of quotes, every other line is kept.
\<close>

fun out_lines :: "string \<Rightarrow> string \<Rightarrow> string list \<Rightarrow> string list" where
  "out_lines key v [] = []"
| "out_lines key v (l # ls) =
     (if key_line key l then keyval_str key (quoted v) # out_lines key (quoted v) ls
      else l # out_lines key v ls)"

text \<open>The lines UpdateLocalFile writes, as a function of the stripped lines it read.\<close>

definition out_file :: "string \<Rightarrow> string \<Rightarrow> string \<Rightarrow> string list" where
  "out_file contents value key =
     (if \<exists>l\<in>set (stripped_lines contents). key_line key l
      then out_lines key value (stripped_lines contents)
      else stripped_lines contents @ [keyval_str key value])"

section \<open>Regular expressions as prebuilt.py uses them\<close>

text \<open>
  The patterns given to \<^verbatim>\<open>re.match\<close>.  \<open>Dot\<close> is \<^verbatim>\<open>.\<close> (any character but a newline),
  \<open>WordCh\<close> is \<^verbatim>\<open>\w\<close> and \<open>DigitCh\<close> is \<^verbatim>\<open>\d\<close> (for byte strings, without flags:
  ASCII letters, digits and the underscore; ASCII digits).
\<close>

datatype rx = Null | Eps | Lit char | Dot | WordCh | DigitCh | Seq rx rx | Alt rx rx | Star rx

definition is_digit :: "char \<Rightarrow> bool" where
  "is_digit c \<longleftrightarrow> c \<in> set ''0123456789''"

definition is_word :: "char \<Rightarrow> bool" where
  "is_word c \<longleftrightarrow>
     c \<in> set ''abcdefghijklmnopqrstuvwxyzABCDEFGHIJKLMNOPQRSTUVWXYZ0123456789_''"

fun nullable :: "rx \<Rightarrow> bool" where
  "nullable Null = False"
| "nullable Eps = True"
| "nullable (Lit d) = False"
| "nullable Dot = False"
| "nullable WordCh = False"
| "nullable DigitCh = False"
| "nullable (Seq r s) = (nullable r \<and> nullable s)"
| "nullable (Alt r s) = (nullable r \<or> nullable s)"
| "nullable (Star r) = True"

text \<open>Sequence and alternative that drop the empty language and the empty word on the left.\<close>

fun seq :: "rx \<Rightarrow> rx \<Rightarrow> rx" where
  "seq Null s = Null"
| "seq Eps s = s"
| "seq r s = Seq r s"

fun alt :: "rx \<Rightarrow> rx \<Rightarrow> rx" where
  "alt Null s = s"
| "alt r Null = r"
| "alt r s = Alt r s"

text \<open>The pattern that matches what is left of a match of \<open>r\<close> after the character \<open>c\<close>.\<close>

fun deriv :: "char \<Rightarrow> rx \<Rightarrow> rx" where
  "deriv c Null = Null"
| "deriv c Eps = Null"
| "deriv c (Lit d) = (if c = d then Eps else Null)"
| "deriv c Dot = (if c = nl then Null else Eps)"
| "deriv c WordCh = (if is_word c then Eps else Null)"
| "deriv c DigitCh = (if is_digit c then Eps else Null)"
| "deriv c (Seq r s) =
     (if nullable r then alt (seq (deriv c r) s) (deriv c s) else seq (deriv c r) s)"
| "deriv c (Alt r s) = alt (deriv c r) (deriv c s)"
| "deriv c (Star r) = seq (deriv c r) (Star r)"

text \<open>
  \<^verbatim>\<open>re.match(pattern, s)\<close> succeeds when the pattern matches some prefix of \<open>s\<close>
  (the match is anchored at the start only).
\<close>

fun re_match :: "rx \<Rightarrow> string \<Rightarrow> bool" where
  "re_match r [] = nullable r"
| "re_match r (c # cs) = (nullable r \<or> re_match (deriv c r) cs)"

text \<open>
  The first group of a pattern \<^verbatim>\<open>(.*?)R\<close>: the lazy group takes the shortest prefix
  (without newline) after which \<open>R\<close> matches.
\<close>

fun lazy_group :: "rx \<Rightarrow> string \<Rightarrow> string \<Rightarrow> string option" where
  "lazy_group r acc [] = (if re_match r [] then Some acc else None)"
| "lazy_group r acc (c # cs) =
     (if re_match r (c # cs) then Some acc
      else if c = nl then None
      else lazy_group r (acc @ [c]) cs)"

text \<open>The pattern that matches the given literal text.\<close>

fun lits :: "string \<Rightarrow> rx" where
  "lits [] = Eps"
| "lits (c # cs) = Seq (Lit c) (lits cs)"

section \<open>os.path\<close>

text \<open>\<^verbatim>\<open>posixpath.join(a, *p)\<close>: one step of its loop, and the loop.\<close>

definition path_join2 :: "string \<Rightarrow> string \<Rightarrow> string" where
  "path_join2 path b =
     (if take 1 b = ''/'' then b
      else if path = [] \<or> last path = CHR ''/'' then path @ b
      else path @ ''/'' @ b)"

definition os_path_join :: "string \<Rightarrow> string list \<Rightarrow> string" where
  "os_path_join a p = foldl path_join2 a p"

text \<open>
  \<^verbatim>\<open>posixpath.basename\<close> and \<^verbatim>\<open>posixpath.dirname\<close>: the path is cut after its last slash;
  the head loses its trailing slashes unless it consists of slashes only.
\<close>

definition os_path_basename :: "string \<Rightarrow> string" where
  "os_path_basename p = rev (takeWhile (\<lambda>c. c \<noteq> CHR ''/'') (rev p))"

definition os_path_dirname :: "string \<Rightarrow> string" where
  "os_path_dirname p =
     (let head = rev (dropWhile (\<lambda>c. c \<noteq> CHR ''/'') (rev p))
      in if head \<noteq> [] \<and> head \<noteq> replicate (length head) (CHR ''/'')
         then rstrip (\<lambda>c. c = CHR ''/'') head else head)"

section \<open>Constants and errors of prebuilt.py\<close>

definition RETRIES :: int where "RETRIES = 3"

definition GSUTIL_BIN :: string where "GSUTIL_BIN = ''/b/third_party/gsutil/gsutil''"

definition HOST_PACKAGES_PATH :: string where "HOST_PACKAGES_PATH = ''chroot/var/lib/portage/pkgs''"

definition HOST_TARGET :: string where "HOST_TARGET = ''amd64''"

definition BOTO_CONFIG :: string where "BOTO_CONFIG = ''/home/chrome-bot/external-boto''"

definition PRIVATE_OVERLAY_DIR :: string where "PRIVATE_OVERLAY_DIR = ''src/private-overlays''"

definition BINHOST_BASE_DIR :: string where "BINHOST_BASE_DIR = ''src/overlays''"

definition PREBUILT_BASE_DIR :: string where
  "PREBUILT_BASE_DIR = ''src/third_party/chromiumos-overlay/chromeos/config/''"

definition BINHOST_CONF_DIR :: string where
  "BINHOST_CONF_DIR = ''src/third_party/chromiumos-overlay/chromeos/binhost''"

text \<open>The dictionary \<^verbatim>\<open>_PREBUILT_MAKE_CONF\<close>.\<close>

definition PREBUILT_MAKE_CONF :: "string \<rightharpoonup> string" where
  "PREBUILT_MAKE_CONF =
     [''amd64'' \<mapsto> os_path_join PREBUILT_BASE_DIR [''make.conf.amd64-host'']]"

text \<open>
  The exceptions the script defines or meets: its own four classes, the error of the command
  runner, and the built-in ones raised by the operations it uses.
\<close>

datatype error =
    FiltersEmpty
  | UploadFailed
  | UnknownBoardFormat string
  | GitPushFailed
  | RunCommandError
  | IOError
  | OSError
  | KeyError
  | ValueError
  | AssertionError
  | SystemExit int

section \<open>DetermineMakeConfFile\<close>

text \<open>The patterns \<^verbatim>\<open>'.*?_.*'\<close> and \<^verbatim>\<open>'.*?-\w+'\<close> of lines 340 and 344.\<close>

definition variant_re :: rx where
  "variant_re = Seq (Star Dot) (Seq (Lit (CHR ''_'')) (Star Dot))"

definition overlay_re :: rx where
  "overlay_re = Seq (Star Dot) (Seq (Lit (CHR ''-'')) (Seq WordCh (Star WordCh)))"

text \<open>\<^verbatim>\<open>s.replace(a, b)\<close> for single characters.\<close>

definition replace_char :: "char \<Rightarrow> char \<Rightarrow> string \<Rightarrow> string" where
  "replace_char a b s = map (\<lambda>c. if c = a then b else c) s"

definition DetermineMakeConfFile :: "string \<Rightarrow> error + string" where
  "DetermineMakeConfFile target =
     (if HOST_TARGET = target
      then (case PREBUILT_MAKE_CONF target of
              None \<Rightarrow> Inl KeyError
            | Some make_path \<Rightarrow> Inr (os_path_join make_path []))
      else if re_match variant_re target
      then let overlay_str = ''overlay-variant-'' @ replace_char (CHR ''_'') (CHR ''-'') target;
               make_path = os_path_join BINHOST_BASE_DIR [overlay_str, ''make.conf'']
           in Inr (os_path_join make_path [])
      else if re_match overlay_re target
      then let overlay_str = ''overlay-'' @ target;
               make_path = os_path_join BINHOST_BASE_DIR [overlay_str, ''make.conf'']
           in Inr (os_path_join make_path [])
      else Inl (UnknownBoardFormat (''Unknown format: '' @ target)))"

section \<open>The world the script acts on\<close>

text \<open>
  What the script does to its surroundings is recorded in a log of events: every command
  handed to \<^verbatim>\<open>cros_build_lib.RunCommand\<close> (with its \<^verbatim>\<open>cwd\<close> argument), every
  \<^verbatim>\<open>time.sleep\<close>, \<^verbatim>\<open>os.chdir\<close> and \<^verbatim>\<open>os.makedirs\<close>, and every fetch of a remote package
  index.  \<open>Enter f\<close> marks the entry into the function \<open>f\<close>; it stands for no action of the
  script and serves to state that a function was or was not called.
\<close>

datatype event =
    Run string "string option"
  | Sleep int
  | Chdir string
  | MakeDirs string
  | Fetch string
  | Enter string

text \<open>
  The state: the local files by absolute path, the directories, the working directory, the
  global set \<^verbatim>\<open>_FILTER_PACKAGES\<close>, \<^verbatim>\<open>os.environ\<close>, and the log.
\<close>

record world =
  files :: "string \<rightharpoonup> string"
  dirs :: "string set"
  cwd :: string
  FILTER_PACKAGES :: "string set"
  environ :: "string \<rightharpoonup> string"
  trace :: "event list"

text \<open>
  What the script takes from outside this repository.  \<open>run_ok cmd n\<close> tells whether the
  command \<open>cmd\<close> succeeds when run as attempt \<open>n\<close> of the retry loop around it (attempt 0
  for a command outside any retry loop); a command that does not succeed raises
  \<^verbatim>\<open>RunCommandError\<close>.  A package index of \<^verbatim>\<open>chromite.lib.binpkg\<close> is represented by the
  list of the CPVs of its packages; the functions of that library are parameters.
\<close>

type_synonym pkg_index = "string list"

record env =
  run_ok :: "string \<Rightarrow> int \<Rightarrow> bool"
  ListFiles :: "string \<Rightarrow> string list"
  strftime_now :: string
  normpath :: "string \<Rightarrow> string"
  GrabRemotePackageIndex :: "string \<Rightarrow> pkg_index option"
  GrabLocalPackageIndex :: "string \<Rightarrow> pkg_index"
  RemoveFilteredPackages :: "(string \<Rightarrow> bool) \<Rightarrow> pkg_index \<Rightarrow> pkg_index"
  ResolveDuplicateUploads :: "pkg_index \<Rightarrow> pkg_index list \<Rightarrow> string list"
  tmp_packages_file_name :: string

text \<open>A computation that may raise, after changing the world.\<close>

type_synonym 'a result = "(error + 'a) \<times> world"

definition and_then :: "'a result \<Rightarrow> ('a \<Rightarrow> world \<Rightarrow> 'b result) \<Rightarrow> 'b result" where
  "and_then m f = (case m of (Inl err, w) \<Rightarrow> (Inl err, w) | (Inr x, w) \<Rightarrow> f x w)"

definition log_event :: "event \<Rightarrow> world \<Rightarrow> world" where
  "log_event ev w = w\<lparr>trace := trace w @ [ev]\<rparr>"

subsection \<open>Files and directories\<close>

definition abspath :: "env \<Rightarrow> world \<Rightarrow> string \<Rightarrow> string" where
  "abspath e w p = normpath e (os_path_join (cwd w) [p])"

definition isfile :: "env \<Rightarrow> world \<Rightarrow> string \<Rightarrow> bool" where
  "isfile e w p \<longleftrightarrow> abspath e w p \<in> dom (files w)"

definition isdir :: "env \<Rightarrow> world \<Rightarrow> string \<Rightarrow> bool" where
  "isdir e w p \<longleftrightarrow> abspath e w p \<in> dirs w"

definition exists_path :: "env \<Rightarrow> world \<Rightarrow> string \<Rightarrow> bool" where
  "exists_path e w p \<longleftrightarrow> isfile e w p \<or> isdir e w p"

definition write_file :: "env \<Rightarrow> string \<Rightarrow> string \<Rightarrow> world \<Rightarrow> world" where
  "write_file e p contents w = w\<lparr>files := (files w)(abspath e w p \<mapsto> contents)\<rparr>"

definition chdir :: "env \<Rightarrow> string \<Rightarrow> world \<Rightarrow> unit result" where
  "chdir e d w =
     (if isdir e w d then (Inr (), (log_event (Chdir d) w)\<lparr>cwd := abspath e w d\<rparr>)
      else (Inl OSError, log_event (Chdir d) w))"

definition makedirs :: "env \<Rightarrow> string \<Rightarrow> world \<Rightarrow> world" where
  "makedirs e d w = (log_event (MakeDirs d) w)\<lparr>dirs := insert (abspath e w d) (dirs w)\<rparr>"

definition sleep :: "int \<Rightarrow> world \<Rightarrow> world" where
  "sleep n w = log_event (Sleep n) w"

text \<open>
  \<^verbatim>\<open>UpdateLocalFile(filename, value, key)\<close> on the file system: opening a missing file
  raises \<^verbatim>\<open>IOError\<close>; otherwise the file receives the text computed from its contents.
\<close>

definition UpdateLocalFile_at :: "env \<Rightarrow> string \<Rightarrow> string \<Rightarrow> string \<Rightarrow> world \<Rightarrow> unit result" where
  "UpdateLocalFile_at e filename value key w =
     (case files w (abspath e w filename) of
        None \<Rightarrow> (Inl IOError, w)
      | Some contents \<Rightarrow> (Inr (), write_file e filename (UpdateLocalFile contents value key) w))"

subsection \<open>Running commands\<close>

text \<open>
  \<^verbatim>\<open>cros_build_lib.RunCommand(cmd, cwd=...)\<close>: the command is logged, and succeeds or raises
  as \<open>run_ok\<close> says.  Commands are taken not to change the local files the script itself
  reads and writes.
\<close>

definition RunCommand :: "env \<Rightarrow> string \<Rightarrow> string option \<Rightarrow> int \<Rightarrow> world \<Rightarrow> unit result" where
  "RunCommand e cmd dir attempt w =
     ((if run_ok e cmd attempt then Inr () else Inl RunCommandError), log_event (Run cmd dir) w)"

text \<open>\<^verbatim>\<open>range(a, b)\<close>.\<close>

definition py_range :: "int \<Rightarrow> int \<Rightarrow> int list" where
  "py_range a b = [a..b - 1]"

text \<open>
  \<^verbatim>\<open>_RetryRun(cmd, cwd=...)\<close>: the loop over \<^verbatim>\<open>range(_RETRIES)\<close> returns \<^verbatim>\<open>True\<close> at the
  first attempt that succeeds; its \<^verbatim>\<open>else\<close> branch returns \<^verbatim>\<open>False\<close>.
\<close>

fun RetryRun_loop :: "env \<Rightarrow> string \<Rightarrow> string option \<Rightarrow> int list \<Rightarrow> world \<Rightarrow> bool \<times> world" where
  "RetryRun_loop e cmd dir [] w = (False, w)"
| "RetryRun_loop e cmd dir (attempt # rest) w =
     (case RunCommand e cmd dir attempt w of
        (Inr _, w') \<Rightarrow> (True, w')
      | (Inl RunCommandError, w') \<Rightarrow> RetryRun_loop e cmd dir rest w'
      | (Inl _, w') \<Rightarrow> (False, w'))"

definition RetryRun :: "env \<Rightarrow> string \<Rightarrow> string option \<Rightarrow> world \<Rightarrow> bool \<times> world" where
  "RetryRun e cmd dir w = RetryRun_loop e cmd dir (py_range 0 RETRIES) w"

subsection \<open>RevGitPushWithRetry\<close>

text \<open>
  The loop over \<^verbatim>\<open>range(1, retries+1)\<close>: an attempt that succeeds leaves the loop
  (\<^verbatim>\<open>break\<close>); one that raises \<^verbatim>\<open>RunCommandError\<close> sleeps when it is not the last; the
  \<^verbatim>\<open>else\<close> branch of the loop raises \<^verbatim>\<open>GitPushFailed\<close>.
\<close>

fun RevGitPushWithRetry_loop :: "env \<Rightarrow> int \<Rightarrow> int list \<Rightarrow> world \<Rightarrow> unit result" where
  "RevGitPushWithRetry_loop e retries [] w = (Inl GitPushFailed, w)"
| "RevGitPushWithRetry_loop e retries (retry # rest) w =
     (case and_then (RunCommand e ''repo sync .'' None retry w)
                    (\<lambda>_. RunCommand e ''git push'' None retry) of
        (Inr _, w') \<Rightarrow> (Inr (), w')
      | (Inl RunCommandError, w') \<Rightarrow>
          RevGitPushWithRetry_loop e retries rest
            (if retry < retries then sleep (5 * retry) w' else w')
      | (Inl err, w') \<Rightarrow> (Inl err, w'))"

definition RevGitPushWithRetry :: "env \<Rightarrow> int \<Rightarrow> world \<Rightarrow> unit result" where
  "RevGitPushWithRetry e retries w =
     RevGitPushWithRetry_loop e retries (py_range 1 (retries + 1)) w"

text \<open>The default of the parameter \<^verbatim>\<open>retries\<close>.\<close>

definition retries_default :: int where
  "retries_default = 5"

subsection \<open>RevGitFile\<close>

text \<open>
  The statements of the \<^verbatim>\<open>try\<close> block run in order until one raises; the \<^verbatim>\<open>finally\<close>
  block runs in either case, and an exception raised inside it replaces the outcome of the
  \<^verbatim>\<open>try\<close> block.
\<close>

definition RevGitFile :: "env \<Rightarrow> string \<Rightarrow> string \<Rightarrow> int \<Rightarrow> string \<Rightarrow> world \<Rightarrow> unit result" where
  "RevGitFile e filename value retries key w0 =
     (let w = log_event (Enter ''RevGitFile'') w0;
          prebuilt_branch = ''prebuilt_branch'';
          old_cwd = cwd w
      in and_then (chdir e (os_path_dirname filename) w) (\<lambda>_ w.
         and_then (RunCommand e ''repo sync .'' None 0 w) (\<lambda>_ w.
         and_then (RunCommand e (''repo start '' @ prebuilt_branch @ '' .'') None 0 w) (\<lambda>_ w.
         let git_ssh_config_cmd =
               ''git config url.ssh://git@gitrw.chromium.org:9222.pushinsteadof '' @
               ''http://git.chromium.org/git''
         in and_then (RunCommand e git_ssh_config_cmd None 0 w) (\<lambda>_ w.
         let description = ''Update '' @ key @ ''=\"'' @ value @ ''\" in '' @ filename;
             (outcome, w) =
               and_then (UpdateLocalFile_at e filename value key w) (\<lambda>_ w.
               and_then (RunCommand e ''git config push.default tracking'' None 0 w) (\<lambda>_ w.
               and_then (RunCommand e (''git commit -am \"'' @ description @ ''\"'') None 0 w) (\<lambda>_ w.
               RevGitPushWithRetry e retries w)))
         in and_then (RunCommand e (''repo abandon '' @ prebuilt_branch @ '' .'') None 0 w) (\<lambda>_ w.
            and_then (chdir e old_cwd w) (\<lambda>_ w. (outcome, w))))))))"

subsection \<open>LoadPrivateFilters and ShouldFilterPackage\<close>

text \<open>The pattern \<^verbatim>\<open>'(.*?)-\d.*.ebuild'\<close> after its first group.\<close>

definition ebuild_re :: rx where
  "ebuild_re = Seq (Lit (CHR ''-'')) (Seq DigitCh (Seq (Star Dot) (Seq Dot (lits ''ebuild''))))"

text \<open>\<^verbatim>\<open>s.endswith(suffix)\<close> and \<^verbatim>\<open>s.startswith(p)\<close>.\<close>

definition endswith :: "string \<Rightarrow> string \<Rightarrow> bool" where
  "endswith s suffix \<longleftrightarrow> drop (length s - length suffix) s = suffix \<and> length suffix \<le> length s"

definition startswith :: "string \<Rightarrow> string \<Rightarrow> bool" where
  "startswith s p \<longleftrightarrow> take (length p) s = p"

text \<open>The loop of lines 197 to 203 over the files found.\<close>

fun scan_filters :: "string list \<Rightarrow> string list" where
  "scan_filters [] = []"
| "scan_filters (file # rest) =
     (if endswith file ''.ebuild''
      then (case lazy_group ebuild_re [] (os_path_basename file) of
              Some g \<Rightarrow> g # scan_filters rest
            | None \<Rightarrow> scan_filters rest)
      else scan_filters rest)"

definition LoadPrivateFilters :: "env \<Rightarrow> string \<Rightarrow> world \<Rightarrow> unit result" where
  "LoadPrivateFilters e build_path w =
     (let filter_path = os_path_join build_path [PRIVATE_OVERLAY_DIR];
          files' = ListFiles e filter_path;
          filters = scan_filters files'
      in if filters = [] then (Inl FiltersEmpty, w)
         else (Inr (), w\<lparr>FILTER_PACKAGES := FILTER_PACKAGES w \<union> set filters\<rparr>))"

text \<open>\<^verbatim>\<open>name in file_path\<close>: \<open>name\<close> occurs in \<open>file_path\<close> as a substring.\<close>

fun substring :: "string \<Rightarrow> string \<Rightarrow> bool" where
  "substring name [] = (name = [])"
| "substring name (c # cs) = (startswith (c # cs) name \<or> substring name cs)"

definition ShouldFilterPackage :: "world \<Rightarrow> string \<Rightarrow> bool" where
  "ShouldFilterPackage w file_path \<longleftrightarrow> (\<exists>name\<in>FILTER_PACKAGES w. substring name file_path)"

subsection \<open>Uploading\<close>

text \<open>
  \<^verbatim>\<open>_GsUpload(args)\<close> returns the pair when the upload failed and \<^verbatim>\<open>None\<close> (no
  \<^verbatim>\<open>return\<close> statement is reached) when it succeeded.
\<close>

definition gs_cmd :: "string \<times> string \<Rightarrow> string" where
  "gs_cmd args =
     (case args of (local_file, remote_file) \<Rightarrow>
        GSUTIL_BIN @ '' cp -a public-read '' @ local_file @ '' '' @ remote_file)"

definition GsUpload :: "env \<Rightarrow> string \<times> string \<Rightarrow> world \<Rightarrow> (string \<times> string) option \<times> world" where
  "GsUpload e args w =
     (case args of (local_file, remote_file) \<Rightarrow>
        let cmd = gs_cmd (local_file, remote_file)
        in (case RetryRun e cmd None w of
              (True, w') \<Rightarrow> (None, w')
            | (False, w') \<Rightarrow> (Some (local_file, remote_file), w')))"

text \<open>
  \<^verbatim>\<open>pool.map_async(f, workers)\<close> followed by \<^verbatim>\<open>result.get\<close>: every element of
  \<open>workers\<close> is handed to \<open>f\<close> and the results are collected in the order of \<open>workers\<close>.  The
  worker processes are run one after the other here; the outcome of a command depends on
  its text and its attempt number only, so the results do not depend on this order.
\<close>

fun map_async :: "('a \<Rightarrow> world \<Rightarrow> 'b \<times> world) \<Rightarrow> 'a list \<Rightarrow> world \<Rightarrow> 'b list \<times> world" where
  "map_async f [] w = ([], w)"
| "map_async f (x # xs) w =
     (case f x w of (y, w') \<Rightarrow> (case map_async f xs w' of (ys, w'') \<Rightarrow> (y # ys, w'')))"

text \<open>
  \<^verbatim>\<open>RemoteUpload(files)\<close>; the dictionary \<open>files\<close> is given by the list of its items.
\<close>

definition RemoteUpload ::
  "env \<Rightarrow> (string \<times> string) list \<Rightarrow> world \<Rightarrow> (string \<times> string) option set \<times> world" where
  "RemoteUpload e files' w =
     (let workers = map (\<lambda>(local_file, remote_path). (local_file, remote_path)) files'
      in case map_async (GsUpload e) workers w of (result, w') \<Rightarrow> (set result, w'))"

text \<open>
  \<^verbatim>\<open>GenerateUploadDict\<close>: a package is given by its \<^verbatim>\<open>CPV\<close>; the dictionary is built as
  a list of items, a later entry for the same key replacing the earlier one.
\<close>

fun GenerateUploadDict_loop ::
  "env \<Rightarrow> world \<Rightarrow> string \<Rightarrow> string \<Rightarrow> string list \<Rightarrow> (string \<times> string) list \<Rightarrow>
   error + (string \<times> string) list" where
  "GenerateUploadDict_loop e w base_local_path base_remote_path [] upload_files = Inr upload_files"
| "GenerateUploadDict_loop e w base_local_path base_remote_path (pkg # pkgs) upload_files =
     (let suffix = pkg @ ''.tbz2'';
          local_path = os_path_join base_local_path [suffix]
      in if \<not> exists_path e w local_path then Inl AssertionError
         else let remote_path = rstrip (\<lambda>c. c = CHR ''/'') base_remote_path @ ''/'' @ suffix
              in GenerateUploadDict_loop e w base_local_path base_remote_path pkgs
                   (AList.update local_path remote_path upload_files))"

definition GenerateUploadDict ::
  "env \<Rightarrow> world \<Rightarrow> string \<Rightarrow> string \<Rightarrow> string list \<Rightarrow> error + (string \<times> string) list" where
  "GenerateUploadDict e w base_local_path base_remote_path pkgs =
     GenerateUploadDict_loop e w base_local_path base_remote_path pkgs []"

subsection \<open>UpdateBinhostConfFile\<close>

definition UpdateBinhostConfFile :: "env \<Rightarrow> string \<Rightarrow> string \<Rightarrow> string \<Rightarrow> world \<Rightarrow> unit result" where
  "UpdateBinhostConfFile e path key value w0 =
     (let w = log_event (Enter ''UpdateBinhostConfFile'') w0;
          cwd' = os_path_dirname (abspath e w path);
          filename = os_path_basename path;
          w = (if \<not> isdir e w cwd' then makedirs e cwd' w else w);
          w = (if \<not> isfile e w path
               then write_file e path (''FULL_BINHOST=\"$PORTAGE_BINHOST\"'' @ [nl]) w else w)
      in and_then (UpdateLocalFile_at e path value key w) (\<lambda>_ w.
         and_then (RunCommand e (''git add '' @ filename) (Some cwd') 0 w) (\<lambda>_ w.
         let description = ''Update '' @ key @ ''='' @ value @ '' in '' @ filename
         in RunCommand e (''git commit -m \"'' @ description @ ''\"'') (Some cwd') 0 w)))"

subsection \<open>UploadPrebuilt\<close>

text \<open>
  A value that Python tests for truth: \<^verbatim>\<open>None\<close> and the empty string count as false.
\<close>

definition truthy :: "string option \<Rightarrow> bool" where
  "truthy s \<longleftrightarrow> (case s of None \<Rightarrow> False | Some x \<Rightarrow> x \<noteq> [])"

text \<open>\<^verbatim>\<open>'%s' % s\<close> for a value that is a string or \<^verbatim>\<open>None\<close>.\<close>

definition str :: "string option \<Rightarrow> string" where
  "str s = (case s of None \<Rightarrow> ''None'' | Some x \<Rightarrow> x)"

text \<open>\<^verbatim>\<open>s.split(d, 1)\<close> unpacked into two variables; unpacking fails when \<open>d\<close> is absent.\<close>

definition split1 :: "char \<Rightarrow> string \<Rightarrow> (string \<times> string) option" where
  "split1 d s =
     (if d \<in> set s
      then Some (takeWhile (\<lambda>c. c \<noteq> d) s, tl (dropWhile (\<lambda>c. c \<noteq> d) s))
      else None)"

text \<open>The branch for \<^verbatim>\<open>gs://\<close> locations, lines 428 to 437.\<close>

definition UploadPrebuilt_gs ::
  "env \<Rightarrow> string \<Rightarrow> string \<Rightarrow> string list \<Rightarrow> string \<Rightarrow> world \<Rightarrow> unit result" where
  "UploadPrebuilt_gs e package_path remote_location uploads tmp_packages_file w =
     (case GenerateUploadDict e w package_path remote_location uploads of
        Inl err \<Rightarrow> (Inl err, w)
      | Inr upload_files \<Rightarrow>
          let remote_file = rstrip (\<lambda>c. c = CHR ''/'') remote_location @ ''/Packages'';
              upload_files = AList.update tmp_packages_file remote_file upload_files
          in (case RemoteUpload e upload_files w of
                (failed_uploads, w') \<Rightarrow>
                  if card failed_uploads > 1 \<or> None \<notin> failed_uploads
                  then (Inl UploadFailed, w')
                  else (Inr (), w')))"

text \<open>The loop of lines 451 to 453.\<close>

fun run_cmds :: "env \<Rightarrow> string list \<Rightarrow> string \<Rightarrow> world \<Rightarrow> unit result" where
  "run_cmds e [] package_path w = (Inr (), w)"
| "run_cmds e (cmd # cmds) package_path w =
     (case RetryRun e cmd (Some package_path) w of
        (False, w') \<Rightarrow> (Inl UploadFailed, w')
      | (True, w') \<Rightarrow> run_cmds e cmds package_path w')"

text \<open>The branch for the other locations, lines 439 to 453.\<close>

definition UploadPrebuilt_rsync ::
  "env \<Rightarrow> string \<Rightarrow> string \<Rightarrow> string list \<Rightarrow> string \<Rightarrow> world \<Rightarrow> unit result" where
  "UploadPrebuilt_rsync e package_path remote_location uploads tmp_packages_file w =
     (let pkgs = join '' '' (map (\<lambda>p. p @ ''.tbz2'') uploads)
      in case split1 (CHR '':'') remote_location of
           None \<Rightarrow> (Inl ValueError, w)
         | Some (ssh_server, remote_path) \<Rightarrow>
             let remote_packages = rstrip (\<lambda>c. c = CHR ''/'') remote_location @ ''/Packages'';
                 cmds = [''ssh '' @ ssh_server @ '' mkdir -p '' @ remote_path,
                         ''rsync -av --chmod=a+r '' @ tmp_packages_file @ '' '' @ remote_packages];
                 cmds = (if pkgs \<noteq> []
                         then cmds @ [''rsync -Rav '' @ pkgs @ '' '' @ remote_location @ ''/'']
                         else cmds)
             in run_cmds e cmds package_path w)"

text \<open>
  Lines 399 to 415: the package directory, the URL suffix, the git file and the binhost
  configuration file of the target; \<^verbatim>\<open>DetermineMakeConfFile\<close> may raise.
\<close>

definition target_paths ::
  "string \<Rightarrow> string \<Rightarrow> string option \<Rightarrow> error + (string \<times> string \<times> string \<times> string)" where
  "target_paths build_path version board =
     (if \<not> truthy board
      then let package_path = os_path_join build_path [HOST_PACKAGES_PATH];
               url_suffix = ''host/'' @ HOST_TARGET @ ''/'' @ version @ ''/packages''
           in (case PREBUILT_MAKE_CONF HOST_TARGET of
                 None \<Rightarrow> Inl KeyError
               | Some conf \<Rightarrow>
                   let git_file = os_path_join build_path [conf];
                       binhost_conf = os_path_join build_path
                         [BINHOST_CONF_DIR, ''host'', HOST_TARGET @ ''.conf'']
                   in Inr (package_path, url_suffix, git_file, binhost_conf))
      else let board_path = os_path_join build_path [''chroot/build/'' @ str board];
               package_path = os_path_join board_path [''packages''];
               url_suffix = ''board/'' @ str board @ ''/'' @ version @ ''/packages''
           in (case DetermineMakeConfFile (str board) of
                 Inl err \<Rightarrow> Inl err
               | Inr conf \<Rightarrow>
                   let git_file = os_path_join build_path [conf];
                       binhost_conf = os_path_join build_path
                         [BINHOST_CONF_DIR, ''target'', str board @ ''.conf'']
                   in Inr (package_path, url_suffix, git_file, binhost_conf)))"

definition UploadPrebuilt ::
  "env \<Rightarrow> string \<Rightarrow> string \<Rightarrow> string \<Rightarrow> string \<Rightarrow> string option \<Rightarrow> bool \<Rightarrow> int \<Rightarrow> string \<Rightarrow>
   pkg_index list \<Rightarrow> bool \<Rightarrow> world \<Rightarrow> unit result" where
  "UploadPrebuilt e build_path upload_location version binhost_base_url board git_sync
       git_sync_retries key pkg_indexes sync_binhost_conf w =
     (case target_paths build_path version board of
        Inl err \<Rightarrow> (Inl err, w)
      | Inr (package_path, url_suffix, git_file, binhost_conf) \<Rightarrow>
          let remote_location = rstrip (\<lambda>c. c = CHR ''/'') upload_location @ ''/'' @ url_suffix;
              pkg_index = GrabLocalPackageIndex e package_path;
              pkg_index = RemoveFilteredPackages e (ShouldFilterPackage w) pkg_index;
              uploads = ResolveDuplicateUploads e pkg_index pkg_indexes;
              tmp_packages_file = tmp_packages_file_name e
          in and_then
               (if startswith upload_location ''gs://''
                then UploadPrebuilt_gs e package_path remote_location uploads tmp_packages_file w
                else UploadPrebuilt_rsync e package_path remote_location uploads
                       tmp_packages_file w)
               (\<lambda>_ w.
                  let url_value = binhost_base_url @ ''/'' @ url_suffix @ ''/''
                  in and_then
                       (if git_sync
                        then RevGitFile e git_file url_value git_sync_retries key w
                        else (Inr (), w))
                       (\<lambda>_ w.
                          if sync_binhost_conf
                          then UpdateBinhostConfFile e binhost_conf key url_value w
                          else (Inr (), w))))"

subsection \<open>main\<close>

text \<open>The options as \<^verbatim>\<open>parser.parse_args()\<close> delivers them.\<close>

record options =
  opt_binhost_base_url :: string
  opt_previous_binhost_url :: "string list"
  opt_board :: "string option"
  opt_build_path :: "string option"
  opt_sync_host :: bool
  opt_git_sync :: bool
  opt_upload :: "string option"
  opt_prepend_version :: "string option"
  opt_filters :: bool
  opt_key :: string
  opt_sync_binhost_conf :: bool

text \<open>\<^verbatim>\<open>usage\<close> prints the help and leaves with \<^verbatim>\<open>sys.exit(1)\<close>.\<close>

definition usage :: "world \<Rightarrow> unit result" where
  "usage w = (Inl (SystemExit 1), w)"

definition GetVersion :: "env \<Rightarrow> string" where
  "GetVersion e = strftime_now e"

text \<open>The loop of lines 521 to 524 over the previous binhost URLs.\<close>

fun grab_indexes :: "env \<Rightarrow> string list \<Rightarrow> pkg_index list \<Rightarrow> world \<Rightarrow> pkg_index list \<times> world" where
  "grab_indexes e [] pkg_indexes w = (pkg_indexes, w)"
| "grab_indexes e (url # urls) pkg_indexes w =
     (case GrabRemotePackageIndex e url of
        None \<Rightarrow> grab_indexes e urls pkg_indexes (log_event (Fetch url) w)
      | Some pkg_index \<Rightarrow>
          grab_indexes e urls (pkg_indexes @ [pkg_index]) (log_event (Fetch url) w))"

definition main :: "env \<Rightarrow> options \<Rightarrow> world \<Rightarrow> unit result" where
  "main e options w0 =
     (let w = w0\<lparr>environ := (environ w0)(''BOTO_CONFIG'' \<mapsto> BOTO_CONFIG)\<rparr>
      in and_then (if \<not> truthy (opt_build_path options) then usage w else (Inr (), w)) (\<lambda>_ w.
         and_then (if \<not> truthy (opt_upload options) then usage w else (Inr (), w)) (\<lambda>_ w.
         and_then (if opt_filters options
                   then LoadPrivateFilters e (str (opt_build_path options)) w
                   else (Inr (), w)) (\<lambda>_ w.
         let version = GetVersion e;
             version = (if truthy (opt_prepend_version options)
                        then str (opt_prepend_version options) @ ''-'' @ version
                        else version)
         in (case grab_indexes e (opt_previous_binhost_url options) [] w of
               (pkg_indexes, w) \<Rightarrow>
                 and_then
                   (if opt_sync_host options
                    then UploadPrebuilt e (str (opt_build_path options)) (str (opt_upload options))
                           version (opt_binhost_base_url options) None (opt_git_sync options)
                           retries_default (opt_key options) pkg_indexes
                           (opt_sync_binhost_conf options) w
                    else (Inr (), w))
                   (\<lambda>_ w.
                      if truthy (opt_board options)
                      then UploadPrebuilt e (str (opt_build_path options))
                             (str (opt_upload options)) version (opt_binhost_base_url options)
                             (opt_board options) (opt_git_sync options) retries_default
                             (opt_key options) pkg_indexes (opt_sync_binhost_conf options) w
                      else (Inr (), w)))))))"

section \<open>Notions used to state the properties of the other functions\<close>

text \<open>
  What the pattern \<^verbatim>\<open>'.*?-\w+'\<close> asks of a string: a hyphen directly followed by a word
  character, with no newline before the hyphen.
\<close>

fun hyphen_word :: "string \<Rightarrow> bool" where
  "hyphen_word [] = False"
| "hyphen_word [c] = False"
| "hyphen_word (c # d # cs) =
     ((c = CHR ''-'' \<and> is_word d) \<or> (c \<noteq> nl \<and> hyphen_word (d # cs)))"

text \<open>A path with one slash at its end, as \<^verbatim>\<open>os.path.join\<close> leaves it before the next component.\<close>

definition with_slash :: "string \<Rightarrow> string" where
  "with_slash p = (if p \<noteq> [] \<and> last p = CHR ''/'' then p else p @ ''/'')"

text \<open>
  For RevGitPushWithRetry: attempt \<open>r\<close> succeeds when both its commands do; the events one
  attempt adds to the log (the push is run only after a successful sync, the sleep follows a
  failed attempt that is not the last); and the attempts made out of a list of attempts, that
  is the failing ones up to and including the first that succeeds.
\<close>

definition attempt_ok :: "env \<Rightarrow> int \<Rightarrow> bool" where
  "attempt_ok e r \<longleftrightarrow> run_ok e ''repo sync .'' r \<and> run_ok e ''git push'' r"

definition attempt_events :: "env \<Rightarrow> int \<Rightarrow> int \<Rightarrow> event list" where
  "attempt_events e retries r =
     Run ''repo sync .'' None #
     (if run_ok e ''repo sync .'' r then [Run ''git push'' None] else []) @
     (if \<not> attempt_ok e r \<and> r < retries then [Sleep (5 * r)] else [])"

definition attempted :: "env \<Rightarrow> int list \<Rightarrow> int list" where
  "attempted e rs =
     takeWhile (\<lambda>r. \<not> attempt_ok e r) rs @ take 1 (dropWhile (\<lambda>r. \<not> attempt_ok e r) rs)"

text \<open>
  For RemoteUpload: the transfer command of a pair fails at each of the three attempts of
  \<^verbatim>\<open>_RetryRun\<close>.
\<close>

definition upload_fails :: "env \<Rightarrow> string \<times> string \<Rightarrow> bool" where
  "upload_fails e p \<longleftrightarrow>
     \<not> run_ok e (gs_cmd p) 0 \<and> \<not> run_ok e (gs_cmd p) 1 \<and> \<not> run_ok e (gs_cmd p) 2"

text \<open>
  For UploadPrebuilt: the second world is the first one with commands added to its log and
  nothing else changed; and the choice of the transport at line 427.
\<close>

fun is_run :: "event \<Rightarrow> bool" where
  "is_run (Run cmd dir) = True"
| "is_run ev = False"

definition only_runs :: "world \<Rightarrow> world \<Rightarrow> bool" where
  "only_runs w w' \<longleftrightarrow> (\<exists>t. w' = w\<lparr>trace := trace w @ t\<rparr> \<and> (\<forall>ev\<in>set t. is_run ev))"

definition upload_step ::
  "env \<Rightarrow> string \<Rightarrow> string \<Rightarrow> string \<Rightarrow> string list \<Rightarrow> string \<Rightarrow> world \<Rightarrow> unit result" where
  "upload_step e upload_location pp rl ups tmp w =
     (if startswith upload_location ''gs://''
      then UploadPrebuilt_gs e pp rl ups tmp w
      else UploadPrebuilt_rsync e pp rl ups tmp w)"

section \<open>Concrete surroundings for the examples\<close>

text \<open>
  An environment in which every command fails and nothing is found, one in which every
  command succeeds, an empty world, and options that ask for a host upload to a
  \<^verbatim>\<open>gs://\<close> location with filtering and both kinds of configuration update.
\<close>

definition env0 :: env where
  "env0 = \<lparr>run_ok = (\<lambda>cmd n. False), ListFiles = (\<lambda>p. []), strftime_now = ''03.11.26.120000'',
           normpath = (\<lambda>p. p), GrabRemotePackageIndex = (\<lambda>u. None),
           GrabLocalPackageIndex = (\<lambda>p. []), RemoveFilteredPackages = (\<lambda>f ps. filter (\<lambda>p. \<not> f p) ps),
           ResolveDuplicateUploads = (\<lambda>ps old. ps), tmp_packages_file_name = ''/tmp/Packages''\<rparr>"

definition env_ok :: env where
  "env_ok = env0\<lparr>run_ok := (\<lambda>cmd n. True)\<rparr>"

text \<open>An environment in which the sync always succeeds and the push succeeds from attempt 3 on.\<close>

definition env_push3 :: env where
  "env_push3 = env0\<lparr>run_ok := (\<lambda>cmd n. cmd = ''repo sync .'' \<or> 3 \<le> n)\<rparr>"

definition world0 :: world where
  "world0 = \<lparr>files = Map.empty, dirs = {}, cwd = ''/'', FILTER_PACKAGES = {},
             environ = Map.empty, trace = []\<rparr>"

definition opts0 :: options where
  "opts0 = \<lparr>opt_binhost_base_url = ''http://h'', opt_previous_binhost_url = [''http://old''],
            opt_board = None, opt_build_path = Some ''/b'', opt_sync_host = True,
            opt_git_sync = True, opt_upload = Some ''gs://bucket'', opt_prepend_version = None,
            opt_filters = True, opt_key = ''PORTAGE_BINHOST'', opt_sync_binhost_conf = True\<rparr>"

section \<open>Facts about splitting, joining and reading lines\<close>

lemma split_on_nonempty: "split_on d s \<noteq> []"
  by (induction s) (auto split: list.splits)

lemma split_on_length: "length (split_on d s) = Suc (count_list s d)"
  by (induction s) (auto split: list.splits simp: split_on_nonempty)

lemma split_on_none: "d \<notin> set a \<Longrightarrow> split_on d a = [a]"
  by (induction a) auto

lemma split_on_append: "d \<notin> set a \<Longrightarrow> split_on d (a @ d # b) = a # split_on d b"
  by (induction a) auto

lemma split_on_decomp:
  "d \<in> set s \<Longrightarrow> \<exists>a b. s = a @ d # b \<and> d \<notin> set a"
  by (metis split_list_first)

lemma split_on_two_iff:
  "length (split_on d s) = 2 \<longleftrightarrow> (\<exists>a b. s = a @ d # b \<and> d \<notin> set a \<and> d \<notin> set b)"
proof
  assume L: "length (split_on d s) = 2"
  then have "count_list s d = 1" by (simp add: split_on_length)
  then have "d \<in> set s" by (metis count_list_0_iff zero_neq_one)
  then obtain a b where ab: "s = a @ d # b" "d \<notin> set a" by (metis split_list_first)
  with L have "length (split_on d b) = 1" by (simp add: split_on_append)
  then have "count_list b d = 0" by (simp add: split_on_length)
  then have "d \<notin> set b" by (simp add: count_list_0_iff)
  with ab show "\<exists>a b. s = a @ d # b \<and> d \<notin> set a \<and> d \<notin> set b" by blast
next
  assume "\<exists>a b. s = a @ d # b \<and> d \<notin> set a \<and> d \<notin> set b"
  then show "length (split_on d s) = 2"
    by (auto simp: split_on_append split_on_none)
qed

lemma split_on_pair: "d \<notin> set a \<Longrightarrow> d \<notin> set b \<Longrightarrow> split_on d (a @ d # b) = [a, b]"
  by (simp add: split_on_append split_on_none)

lemma split_on_two_rejoin:
  assumes "length (split_on d s) = 2"
  shows "split_on d s ! 0 @ d # split_on d s ! 1 = s"
proof -
  from assms obtain a b where "s = a @ d # b" "d \<notin> set a" "d \<notin> set b"
    by (auto simp: split_on_two_iff)
  then show ?thesis by (simp add: split_on_pair)
qed

lemma file_iter_line: "nl \<notin> set l \<Longrightarrow> file_iter (l @ nl # rest) = (l @ [nl]) # file_iter rest"
  by (induction l) auto

lemma rstrip_nl_end: "nl \<notin> set l \<Longrightarrow> rstrip (\<lambda>c. c = nl) (l @ [nl]) = l"
  by (cases l rule: rev_cases) (auto simp: rstrip_def)

lemma rstrip_nl_id: "nl \<notin> set l \<Longrightarrow> rstrip (\<lambda>c. c = nl) l = l"
  by (cases l rule: rev_cases) (auto simp: rstrip_def)

lemma stripped_lines_join_Cons:
  "\<forall>l\<in>set (x # xs). nl \<notin> set l \<Longrightarrow> stripped_lines (join [nl] (x # xs) @ [nl]) = x # xs"
proof (induction xs arbitrary: x)
  case Nil
  then show ?case
    using file_iter_line[of x "[]"] by (simp add: stripped_lines_def rstrip_nl_end)
next
  case (Cons y ys)
  then have "stripped_lines (join [nl] (y # ys) @ [nl]) = y # ys" by simp
  moreover have "nl \<notin> set x" using Cons.prems by simp
  ultimately show ?case
    using file_iter_line[of x "join [nl] (y # ys) @ [nl]"]
    by (simp add: stripped_lines_def rstrip_nl_end)
qed

lemma stripped_lines_join:
  "ls \<noteq> [] \<Longrightarrow> \<forall>l\<in>set ls. nl \<notin> set l \<Longrightarrow> stripped_lines (join [nl] ls @ [nl]) = ls"
  by (cases ls) (simp_all add: stripped_lines_join_Cons)

lemma file_iter_shape:
  "r \<in> set (file_iter s) \<Longrightarrow> r \<noteq> [] \<and> nl \<notin> set (butlast r)"
  by (induction s arbitrary: r) (auto split: if_splits list.splits)

lemma stripped_lines_no_nl: "l \<in> set (stripped_lines s) \<Longrightarrow> nl \<notin> set l"
proof -
  assume "l \<in> set (stripped_lines s)"
  then obtain r where r: "r \<in> set (file_iter s)" "l = rstrip (\<lambda>c. c = nl) r"
    by (auto simp: stripped_lines_def)
  then have s: "r \<noteq> []" "nl \<notin> set (butlast r)" using file_iter_shape by blast+
  then obtain b c where bc: "r = b @ [c]" by (metis rev_exhaust)
  with s have "nl \<notin> set b" by simp
  then show ?thesis using r bc by (cases "c = nl") (auto simp: rstrip_nl_end rstrip_nl_id)
qed

lemma loop_body_simps:
  "loop_body key st raw =
     (let l = rstrip (\<lambda>c. c = nl) raw in
      if key_line key l
      then st\<lparr>file_lines := file_lines st @ [keyval_str key (quoted (val st))],
              found := True, val := quoted (val st)\<rparr>
      else st\<lparr>file_lines := file_lines st @ [l]\<rparr>)"
  using split_on_two_rejoin[of "CHR ''=''" "rstrip (\<lambda>c. c = nl) raw"]
  by (auto simp: loop_body_def key_line_def Let_def keyval_str_def)

lemma loop_file_lines:
  "file_lines (foldl (loop_body key) st raws) =
     file_lines st @ out_lines key (val st) (map (rstrip (\<lambda>c. c = nl)) raws)"
  by (induction raws arbitrary: st) (simp_all add: loop_body_simps Let_def)

lemma loop_found:
  "found (foldl (loop_body key) st raws) \<longleftrightarrow>
     found st \<or> (\<exists>l\<in>set (map (rstrip (\<lambda>c. c = nl)) raws). key_line key l)"
  by (induction raws arbitrary: st) (auto simp add: loop_body_simps Let_def)

lemma loop_val:
  "\<not> found (foldl (loop_body key) st raws) \<Longrightarrow> val (foldl (loop_body key) st raws) = val st"
proof (induction raws arbitrary: st)
  case Nil
  then show ?case by simp
next
  case (Cons r rs)
  have nf: "\<not> found (loop_body key st r)"
    using Cons.prems by (simp add: loop_found)
  then have "val (loop_body key st r) = val st"
    by (auto simp: loop_body_simps Let_def split: if_splits)
  with Cons show ?case by simp
qed

lemma UpdateLocalFile_lines:
  "UpdateLocalFile contents value key =
     join [nl]
       (if \<exists>l\<in>set (stripped_lines contents). key_line key l
        then out_lines key value (stripped_lines contents)
        else out_lines key value (stripped_lines contents) @ [keyval_str key value]) @ [nl]"
  by (simp add: UpdateLocalFile_def Let_def loop_file_lines loop_found loop_val stripped_lines_def)

lemma out_lines_absent:
  "\<forall>l\<in>set ls. \<not> key_line key l \<Longrightarrow> out_lines key v ls = ls"
  by (induction ls) auto

lemma quoted_set: "set (quoted v) = insert (CHR 0x22) (set v)"
  by (auto simp: quoted_def)

lemma key_line_keyval:
  "CHR ''='' \<notin> set k \<Longrightarrow> CHR ''='' \<notin> set v \<Longrightarrow> key_line k (keyval_str k v)"
  by (simp add: key_line_def keyval_str_def split_on_pair)

lemma key_line_key:
  assumes "key_line k l"
  shows "CHR ''='' \<notin> set k" and "set k \<subseteq> set l"
proof -
  from assms obtain a b where ab: "l = a @ CHR ''='' # b" "CHR ''='' \<notin> set a" "CHR ''='' \<notin> set b"
    by (auto simp: key_line_def split_on_two_iff)
  with assms have "k = a" by (simp add: key_line_def split_on_pair)
  with ab show "CHR ''='' \<notin> set k" and "set k \<subseteq> set l" by auto
qed

lemma key_line_not_foreign: "key_line k l \<Longrightarrow> \<not> foreign l"
  by (simp add: key_line_def foreign_def)

lemma out_lines_no_nl:
  "\<forall>l\<in>set ls. nl \<notin> set l \<Longrightarrow> nl \<notin> set v \<Longrightarrow>
     \<forall>l\<in>set (out_lines k v ls). nl \<notin> set l"
proof (induction ls arbitrary: v)
  case Nil
  then show ?case by simp
next
  case (Cons l ls)
  show ?case
  proof (cases "key_line k l")
    case True
    then have "nl \<notin> set k" using key_line_key(2)[OF True] Cons.prems(1) by auto
    moreover have "nl \<notin> set (quoted v)" using Cons.prems(2) by (simp add: quoted_set)
    moreover have "\<forall>l\<in>set (out_lines k (quoted v) ls). nl \<notin> set l"
      using Cons.IH[of "quoted v"] Cons.prems \<open>nl \<notin> set (quoted v)\<close> by simp
    ultimately show ?thesis using True by (simp add: keyval_str_def)
  next
    case False
    then show ?thesis using Cons by simp
  qed
qed

lemma out_lines_foreign:
  "CHR ''='' \<notin> set v \<Longrightarrow> filter foreign (out_lines k v ls) = filter foreign ls"
proof (induction ls arbitrary: v)
  case Nil
  then show ?case by simp
next
  case (Cons l ls)
  show ?case
  proof (cases "key_line k l")
    case True
    have q: "CHR ''='' \<notin> set (quoted v)" using Cons.prems by (simp add: quoted_set)
    then have "key_line k (keyval_str k (quoted v))"
      using key_line_key(1)[OF True] by (simp add: key_line_keyval)
    then show ?thesis
      using True Cons.IH[OF q] by (simp add: key_line_not_foreign)
  next
    case False
    then show ?thesis using Cons by simp
  qed
qed

lemma out_lines_count:
  "CHR ''='' \<notin> set v \<Longrightarrow>
     length (filter (key_line k) (out_lines k v ls)) = length (filter (key_line k) ls)"
proof (induction ls arbitrary: v)
  case Nil
  then show ?case by simp
next
  case (Cons l ls)
  show ?case
  proof (cases "key_line k l")
    case True
    have q: "CHR ''='' \<notin> set (quoted v)" using Cons.prems by (simp add: quoted_set)
    then have "key_line k (keyval_str k (quoted v))"
      using key_line_key(1)[OF True] by (simp add: key_line_keyval)
    then show ?thesis
      using True Cons.IH[OF q] by simp
  next
    case False
    then show ?thesis using Cons by simp
  qed
qed

lemma out_lines_idem:
  "CHR ''='' \<notin> set v \<Longrightarrow> out_lines k v (out_lines k v ls) = out_lines k v ls"
proof (induction ls arbitrary: v)
  case Nil
  then show ?case by simp
next
  case (Cons l ls)
  show ?case
  proof (cases "key_line k l")
    case True
    have q: "CHR ''='' \<notin> set (quoted v)" using Cons.prems by (simp add: quoted_set)
    then have "key_line k (keyval_str k (quoted v))"
      using key_line_key(1)[OF True] by (simp add: key_line_keyval)
    then show ?thesis
      using True Cons.IH[OF q] by simp
  next
    case False
    then show ?thesis using Cons by simp
  qed
qed

lemma out_lines_key_line:
  "CHR ''='' \<notin> set v \<Longrightarrow>
     (\<exists>l\<in>set (out_lines k v ls). key_line k l) \<longleftrightarrow> (\<exists>l\<in>set ls. key_line k l)"
  using out_lines_count[of v k ls]
  by (metis filter_False filter_True length_0_conv filter_empty_conv)

lemma UpdateLocalFile_out_file:
  "UpdateLocalFile contents value key = join [nl] (out_file contents value key) @ [nl]"
  by (simp add: UpdateLocalFile_lines out_file_def out_lines_absent)

lemma out_file_nonempty: "out_file contents value key \<noteq> []"
  by (cases "stripped_lines contents") (auto simp: out_file_def)

lemma out_file_no_nl:
  assumes "nl \<notin> set value"
    and "(\<exists>l\<in>set (stripped_lines contents). key_line key l) \<or> nl \<notin> set key"
  shows "\<forall>l\<in>set (out_file contents value key). nl \<notin> set l"
proof (cases "\<exists>l\<in>set (stripped_lines contents). key_line key l")
  case True
  then show ?thesis
    using out_lines_no_nl[of "stripped_lines contents" "value" key] assms(1)
    by (simp add: out_file_def stripped_lines_no_nl)
next
  case False
  then show ?thesis
    using assms by (auto simp: out_file_def keyval_str_def stripped_lines_no_nl)
qed

lemma stripped_lines_UpdateLocalFile:
  assumes "nl \<notin> set value"
    and "(\<exists>l\<in>set (stripped_lines contents). key_line key l) \<or> nl \<notin> set key"
  shows "stripped_lines (UpdateLocalFile contents value key) = out_file contents value key"
  using stripped_lines_join[OF out_file_nonempty out_file_no_nl[OF assms]]
  by (simp add: UpdateLocalFile_out_file)



lemmas ev = UpdateLocalFile_def loop_body_def keyval_str_def rstrip_def quoted_def Let_def
  stripped_lines_def key_line_def foreign_def

section \<open>The properties of UpdateLocalFile\<close>

text \<open>
  Claim C1 says that UpdateLocalFile is idempotent for every file, key and value.  It is not:
  on the file \<^verbatim>\<open>K=x\<close> with key \<^verbatim>\<open>K\<close> and value \<^verbatim>\<open>a=b\<close> the first application writes
  \<^verbatim>\<open>K="a=b"\<close>, a line with two \<open>=\<close> signs that the second application no longer recognises,
  so the second application appends a further line for \<^verbatim>\<open>K\<close>.
\<close>

theorem UpdateLocalFile_idempotent_counterexample:
  "UpdateLocalFile (UpdateLocalFile (''K=x'' @ [nl]) ''a=b'' ''K'') ''a=b'' ''K'' \<noteq>
   UpdateLocalFile (''K=x'' @ [nl]) ''a=b'' ''K''"
  by (simp add: ev)

text \<open>
  Claim C1, amended: when some line of the file already splits into exactly two parts at
  \<open>=\<close> with the key on the left, and the value contains neither \<open>=\<close> nor a newline, applying
  UpdateLocalFile twice with the same key and value yields the same file contents as applying
  it once.
\<close>

theorem UpdateLocalFile_idempotent_when_present:
  assumes "\<exists>l\<in>set (stripped_lines contents). key_line key l"
    and "CHR ''='' \<notin> set value" and "nl \<notin> set value"
  shows "UpdateLocalFile (UpdateLocalFile contents value key) value key =
         UpdateLocalFile contents value key"
proof -
  have s: "stripped_lines (UpdateLocalFile contents value key) =
           out_lines key value (stripped_lines contents)"
    using stripped_lines_UpdateLocalFile[of "value" contents key] assms
    by (simp add: out_file_def)
  have "\<exists>l\<in>set (out_lines key value (stripped_lines contents)). key_line key l"
    using assms(1,2) by (simp add: out_lines_key_line)
  then have o2: "out_file (UpdateLocalFile contents value key) value key =
             out_lines key value (stripped_lines contents)"
    using assms(2) by (simp add: out_file_def s out_lines_idem)
  have o1: "out_file contents value key = out_lines key value (stripped_lines contents)"
    using assms(1) by (simp add: out_file_def)
  have "UpdateLocalFile (UpdateLocalFile contents value key) value key =
        join [nl] (out_file (UpdateLocalFile contents value key) value key) @ [nl]"
    by (rule UpdateLocalFile_out_file)
  also have "\<dots> = join [nl] (out_file contents value key) @ [nl]"
    by (simp only: o1 o2)
  also have "\<dots> = UpdateLocalFile contents value key"
    by (rule UpdateLocalFile_out_file[symmetric])
  finally show ?thesis .
qed

text \<open>
  The amended claim C1 at a concrete file: a comment line followed by \<^verbatim>\<open>K=x\<close>, updated with
  key \<^verbatim>\<open>K\<close> and value \<^verbatim>\<open>v\<close>.
\<close>

theorem UpdateLocalFile_idempotent_when_present_witness:
  "(\<exists>l\<in>set (stripped_lines (''# c'' @ [nl] @ ''K=x'' @ [nl])). key_line ''K'' l) \<and>
   CHR ''='' \<notin> set ''v'' \<and> nl \<notin> set ''v'' \<and>
   UpdateLocalFile (UpdateLocalFile (''# c'' @ [nl] @ ''K=x'' @ [nl]) ''v'' ''K'') ''v'' ''K'' =
     UpdateLocalFile (''# c'' @ [nl] @ ''K=x'' @ [nl]) ''v'' ''K'' \<and>
   UpdateLocalFile (''# c'' @ [nl] @ ''K=x'' @ [nl]) ''v'' ''K'' = ''# c'' @ [nl] @ ''K=\"v\"'' @ [nl]"
proof -
  have h1: "\<exists>l\<in>set (stripped_lines (''# c'' @ [nl] @ ''K=x'' @ [nl])). key_line ''K'' l"
    by (simp add: stripped_lines_def rstrip_def key_line_def)
  have h2: "CHR ''='' \<notin> set ''v''" and h3: "nl \<notin> set ''v''" by simp_all
  have e: "UpdateLocalFile (''# c'' @ [nl] @ ''K=x'' @ [nl]) ''v'' ''K'' = ''# c'' @ [nl] @ ''K=\"v\"'' @ [nl]"
    by (simp add: ev)
  note c = UpdateLocalFile_idempotent_when_present[OF h1 h2 h3]
  show ?thesis by (intro conjI h1 h2 h3 c e)
qed

text \<open>
  Claim C2 says that for a file with no line for the key UpdateLocalFile appends the line
  \<^verbatim>\<open>key="value"\<close>, the value in double quotes.  On the empty file with key
  \<^verbatim>\<open>PORTAGE_BINHOST\<close> and value \<^verbatim>\<open>http://x/\<close> the code writes the value without quotes:
  the quotes are added only on the branch that replaces an existing line (line 111), not on
  the branch that appends (line 117).
\<close>

theorem UpdateLocalFile_unquoted_append:
  "UpdateLocalFile '''' ''http://x/'' ''PORTAGE_BINHOST'' = ''PORTAGE_BINHOST=http://x/'' @ [nl] \<and>
   UpdateLocalFile '''' ''http://x/'' ''PORTAGE_BINHOST'' \<noteq> ''PORTAGE_BINHOST=\"http://x/\"'' @ [nl]"
  by (simp add: ev)




text \<open>
  Claim C4 says that the foreign lines of the output are those of the input, for every
  input.  With the value \<^verbatim>\<open>a=b\<close> the rewritten line \<^verbatim>\<open>K="a=b"\<close> has two \<open>=\<close> signs and
  is itself a foreign line of the output, while the input \<^verbatim>\<open>K=x\<close> has none.
\<close>

theorem UpdateLocalFile_foreign_counterexample:
  "filter foreign (stripped_lines (UpdateLocalFile (''K=x'' @ [nl]) ''a=b'' ''K'')) \<noteq>
   filter foreign (stripped_lines (''K=x'' @ [nl]))"
  by (simp add: ev)

text \<open>
  Claim C4, amended: for a key and a value that contain neither \<open>=\<close> nor a newline, the
  subsequence of foreign lines of the output of UpdateLocalFile is identical to the
  subsequence of foreign lines of the input: each is kept verbatim, none is duplicated and
  their order is unchanged.
\<close>

theorem UpdateLocalFile_foreign_preserved:
  assumes "CHR ''='' \<notin> set key" and "nl \<notin> set key"
    and "CHR ''='' \<notin> set value" and "nl \<notin> set value"
  shows "filter foreign (stripped_lines (UpdateLocalFile contents value key)) =
         filter foreign (stripped_lines contents)"
proof -
  have "\<not> foreign (keyval_str key value)"
    using key_line_keyval[OF assms(1,3)] by (simp add: key_line_not_foreign)
  then show ?thesis
    using assms
    by (simp add: stripped_lines_UpdateLocalFile out_file_def out_lines_foreign)
qed

text \<open>
  The amended claim C4 at a concrete file with two foreign lines around a line for
  \<^verbatim>\<open>K\<close>.
\<close>

theorem UpdateLocalFile_foreign_preserved_witness:
  "CHR ''='' \<notin> set ''K'' \<and> nl \<notin> set ''K'' \<and> CHR ''='' \<notin> set ''v'' \<and> nl \<notin> set ''v'' \<and>
   filter foreign (stripped_lines
      (UpdateLocalFile (''# c'' @ [nl] @ ''K=x'' @ [nl] @ ''a=b=c'' @ [nl]) ''v'' ''K'')) =
     [''# c'', ''a=b=c'']"
proof -
  have h: "CHR ''='' \<notin> set ''K''" "nl \<notin> set ''K''" "CHR ''='' \<notin> set ''v''" "nl \<notin> set ''v''"
    by simp_all
  have z: "filter foreign (stripped_lines (''# c'' @ [nl] @ ''K=x'' @ [nl] @ ''a=b=c'' @ [nl])) = [''# c'', ''a=b=c'']"
    by (simp add: ev)
  show ?thesis
    using UpdateLocalFile_foreign_preserved[OF h, of "''# c'' @ [nl] @ ''K=x'' @ [nl] @ ''a=b=c'' @ [nl]"] z by simp
qed



lemma re_match_Null: "re_match Null s = False"
  by (induction s) auto

lemma deriv_variant:
  "deriv c variant_re =
     (if c = nl then Null else if c = CHR ''_'' then Alt variant_re (Star Dot) else variant_re)"
  by (simp add: variant_re_def)

lemma re_match_variant:
  "re_match variant_re s \<longleftrightarrow> CHR ''_'' \<in> set (takeWhile (\<lambda>c. c \<noteq> nl) s)"
proof (induction s)
  case Nil
  then show ?case by (simp add: variant_re_def)
next
  case (Cons c cs)
  have n: "\<not> nullable variant_re" by (simp add: variant_re_def)
  have a: "re_match (Alt variant_re (Star Dot)) cs" by (cases cs) simp_all
  show ?case using Cons n a by (auto simp: deriv_variant re_match_Null)
qed

lemma is_word_nl: "\<not> is_word nl" and is_word_hyphen: "\<not> is_word (CHR ''-'')"
  by (simp_all add: is_word_def)

lemma deriv_overlay:
  "deriv c overlay_re =
     (if c = nl then Null
      else if c = CHR ''-'' then Alt overlay_re (Seq WordCh (Star WordCh))
      else overlay_re)"
  by (simp add: overlay_re_def)

lemma deriv_overlay_alt:
  "deriv c (Alt overlay_re (Seq WordCh (Star WordCh))) =
     (if c = nl then Null
      else if c = CHR ''-'' then Alt overlay_re (Seq WordCh (Star WordCh))
      else if is_word c then Alt overlay_re (Star WordCh)
      else overlay_re)"
  using is_word_nl is_word_hyphen by (auto simp: deriv_overlay) (simp_all add: overlay_re_def)

lemma re_match_nullable: "nullable r \<Longrightarrow> re_match r s"
  by (cases s) simp_all

lemma re_match_overlay_both:
  "(re_match overlay_re s \<longleftrightarrow> hyphen_word s) \<and>
   (re_match (Alt overlay_re (Seq WordCh (Star WordCh))) s \<longleftrightarrow>
      hyphen_word s \<or> (s \<noteq> [] \<and> is_word (hd s)))"
proof (induction s rule: hyphen_word.induct)
  case 1
  then show ?case by (simp add: overlay_re_def)
next
  case (2 c)
  have n: "\<not> nullable overlay_re" by (simp add: overlay_re_def)
  show ?case
    using n is_word_nl is_word_hyphen
    by (auto simp: deriv_overlay deriv_overlay_alt re_match_Null) (simp_all add: overlay_re_def)
next
  case (3 c d cs)
  have n: "\<not> nullable overlay_re" by (simp add: overlay_re_def)
  have a: "re_match (Alt overlay_re (Star WordCh)) (d # cs)" by (simp add: re_match_nullable)
  have m1: "re_match overlay_re (c # d # cs) = re_match (deriv c overlay_re) (d # cs)"
    using n by simp
  have m2: "re_match (Alt overlay_re (Seq WordCh (Star WordCh))) (c # d # cs) =
            re_match (deriv c (Alt overlay_re (Seq WordCh (Star WordCh)))) (d # cs)"
    using n by simp
  from 3 have ih1: "re_match overlay_re (d # cs) = hyphen_word (d # cs)"
    and ih2: "re_match (Alt overlay_re (Seq WordCh (Star WordCh))) (d # cs) =
             (hyphen_word (d # cs) \<or> is_word d)" by simp_all
  have g1: "re_match overlay_re (c # d # cs) = hyphen_word (c # d # cs)"
    unfolding m1 deriv_overlay using ih1 ih2 re_match_Null by auto
  have g2: "re_match (Alt overlay_re (Seq WordCh (Star WordCh))) (c # d # cs) =
            (hyphen_word (c # d # cs) \<or> is_word c)"
    unfolding m2 deriv_overlay_alt using ih1 ih2 a re_match_Null is_word_nl is_word_hyphen by auto
  show ?case using g1 g2 by simp
qed

lemma re_match_overlay: "re_match overlay_re s \<longleftrightarrow> hyphen_word s"
  by (simp add: re_match_overlay_both)

lemma hyphen_word_ex:
  "hyphen_word s \<longleftrightarrow>
     (\<exists>pre c post. s = pre @ CHR ''-'' # c # post \<and> nl \<notin> set pre \<and> is_word c)"
proof (induction s rule: hyphen_word.induct)
  case 1
  then show ?case by simp
next
  case (2 c)
  then show ?case by (auto simp: Cons_eq_append_conv)
next
  case (3 c d cs)
  show ?case
  proof
    assume "hyphen_word (c # d # cs)"
    then consider "c = CHR ''-''" "is_word d" | "c \<noteq> nl" "hyphen_word (d # cs)" by auto
    then show "\<exists>pre c' post. c # d # cs = pre @ CHR ''-'' # c' # post \<and> nl \<notin> set pre \<and> is_word c'"
    proof cases
      case 1
      then have "c # d # cs = [] @ CHR ''-'' # d # cs \<and> nl \<notin> set [] \<and> is_word d" by simp
      then show ?thesis by blast
    next
      case 2
      with 3 obtain pre c' post where "d # cs = pre @ CHR ''-'' # c' # post" "nl \<notin> set pre" "is_word c'"
        by auto
      with 2 have "c # d # cs = (c # pre) @ CHR ''-'' # c' # post \<and> nl \<notin> set (c # pre) \<and> is_word c'"
        by simp
      then show ?thesis by blast
    qed
  next
    assume "\<exists>pre c' post. c # d # cs = pre @ CHR ''-'' # c' # post \<and> nl \<notin> set pre \<and> is_word c'"
    then obtain pre c' post where p: "c # d # cs = pre @ CHR ''-'' # c' # post" "nl \<notin> set pre" "is_word c'"
      by blast
    show "hyphen_word (c # d # cs)"
    proof (cases pre)
      case Nil
      with p show ?thesis by simp
    next
      case (Cons x pre')
      with p have "d # cs = pre' @ CHR ''-'' # c' # post" "nl \<notin> set pre'" "c \<noteq> nl" by auto
      with p(3) 3 have "hyphen_word (d # cs)" by blast
      with \<open>c \<noteq> nl\<close> show ?thesis by simp
    qed
  qed
qed

lemma os_path_join_overlay:
  "os_path_join (os_path_join BINHOST_BASE_DIR [''overlay-'' @ x, ''make.conf'']) [] =
     with_slash (''src/overlays/overlay-'' @ x) @ ''make.conf''"
  by (simp add: os_path_join_def path_join2_def BINHOST_BASE_DIR_def with_slash_def)

lemma DetermineMakeConfFile_host:
  "DetermineMakeConfFile ''amd64'' =
     Inr ''src/third_party/chromiumos-overlay/chromeos/config/make.conf.amd64-host''"
  by (simp add: DetermineMakeConfFile_def HOST_TARGET_def PREBUILT_MAKE_CONF_def
      os_path_join_def path_join2_def PREBUILT_BASE_DIR_def)

lemma DetermineMakeConfFile_cases:
  "DetermineMakeConfFile target =
     (if target = ''amd64''
      then Inr ''src/third_party/chromiumos-overlay/chromeos/config/make.conf.amd64-host''
      else if CHR ''_'' \<in> set (takeWhile (\<lambda>c. c \<noteq> nl) target)
      then Inr (with_slash (''src/overlays/overlay-variant-'' @
                  replace_char (CHR ''_'') (CHR ''-'') target) @ ''make.conf'')
      else if hyphen_word target
      then Inr (with_slash (''src/overlays/overlay-'' @ target) @ ''make.conf'')
      else Inl (UnknownBoardFormat (''Unknown format: '' @ target)))"
proof (cases "target = ''amd64''")
  case True
  then show ?thesis using DetermineMakeConfFile_host by simp
next
  case False
  then have "HOST_TARGET \<noteq> target" by (auto simp: HOST_TARGET_def)
  then show ?thesis
    using False os_path_join_overlay[of "''variant-'' @ replace_char (CHR ''_'') (CHR ''-'') target"]
      os_path_join_overlay[of target]
    by (simp add: DetermineMakeConfFile_def re_match_variant re_match_overlay Let_def)
qed

text \<open>
  Claim C6: DetermineMakeConfFile is a total function of the target string, and each target
  has exactly one of four outcomes, decided in this order: the fixed make.conf path of the
  host for \<^verbatim>\<open>amd64\<close>; the overlay-variant path for a name with an underscore (on its first
  line, as the pattern's dot does not cross a newline); the plain overlay path for a name
  with a hyphen followed by a word character; the error UnknownBoardFormat otherwise.
  \<^verbatim>\<open>lumpy_variant\<close> yields the overlay-variant form, \<^verbatim>\<open>lumpy-board\<close> the plain overlay form
  and \<^verbatim>\<open>??invalid\<close> the error.
\<close>

theorem DetermineMakeConfFile_total:
  "DetermineMakeConfFile target =
     (if target = ''amd64''
      then Inr ''src/third_party/chromiumos-overlay/chromeos/config/make.conf.amd64-host''
      else if CHR ''_'' \<in> set (takeWhile (\<lambda>c. c \<noteq> nl) target)
      then Inr (with_slash (''src/overlays/overlay-variant-'' @
                  replace_char (CHR ''_'') (CHR ''-'') target) @ ''make.conf'')
      else if hyphen_word target
      then Inr (with_slash (''src/overlays/overlay-'' @ target) @ ''make.conf'')
      else Inl (UnknownBoardFormat (''Unknown format: '' @ target))) \<and>
   DetermineMakeConfFile ''lumpy_variant'' =
     Inr ''src/overlays/overlay-variant-lumpy-variant/make.conf'' \<and>
   DetermineMakeConfFile ''lumpy-board'' = Inr ''src/overlays/overlay-lumpy-board/make.conf'' \<and>
   DetermineMakeConfFile ''??invalid'' = Inl (UnknownBoardFormat ''Unknown format: ??invalid'')"
proof -
  have e1: "DetermineMakeConfFile ''lumpy_variant'' =
     Inr ''src/overlays/overlay-variant-lumpy-variant/make.conf''"
    unfolding DetermineMakeConfFile_cases[of "''lumpy_variant''"]
    by (simp add: replace_char_def with_slash_def)
  have e2: "DetermineMakeConfFile ''lumpy-board'' = Inr ''src/overlays/overlay-lumpy-board/make.conf''"
    unfolding DetermineMakeConfFile_cases[of "''lumpy-board''"]
    by (simp add: is_word_def with_slash_def)
  have e3: "DetermineMakeConfFile ''??invalid'' = Inl (UnknownBoardFormat ''Unknown format: ??invalid'')"
    unfolding DetermineMakeConfFile_cases[of "''??invalid''"] by simp
  show ?thesis by (intro conjI DetermineMakeConfFile_cases e1 e2 e3)
qed

lemma attempted_Cons:
  "attempted e (r # rs) = (if attempt_ok e r then [r] else r # attempted e rs)"
  by (simp add: attempted_def)

lemma attempted_Nil: "attempted e [] = []"
  by (simp add: attempted_def)

lemma push_attempt:
  "and_then (RunCommand e ''repo sync .'' None r w) (\<lambda>_. RunCommand e ''git push'' None r) =
     ((if attempt_ok e r then Inr () else Inl RunCommandError),
      w\<lparr>trace := trace w @ Run ''repo sync .'' None #
          (if run_ok e ''repo sync .'' r then [Run ''git push'' None] else [])\<rparr>)"
  by (simp add: and_then_def RunCommand_def log_event_def attempt_ok_def)

lemma push_loop_result:
  "fst (RevGitPushWithRetry_loop e R rs w) =
     (if \<forall>r\<in>set rs. \<not> attempt_ok e r then Inl GitPushFailed else Inr ())"
  by (induction rs arbitrary: w) (simp_all add: push_attempt)

lemma push_loop_trace:
  "snd (RevGitPushWithRetry_loop e R rs w) =
     w\<lparr>trace := trace w @ concat (map (attempt_events e R) (attempted e rs))\<rparr>"
proof (induction rs arbitrary: w)
  case Nil
  then show ?case by (simp add: attempted_Nil)
next
  case (Cons r rs)
  show ?case
    by (simp add: push_attempt Cons attempted_Cons attempt_events_def sleep_def log_event_def)
qed

lemma length_attempted: "length (attempted e rs) \<le> length rs"
  by (induction rs) (simp_all add: attempted_Cons attempted_Nil)

text \<open>
  Claim C7: RevGitPushWithRetry raises GitPushFailed exactly when every attempt from 1 to
  \<open>retries\<close> fails, and returns normally otherwise; it runs the sync-and-push sequence for
  the attempts up to the first one that succeeds, at most \<open>retries\<close> of them; after a failed
  attempt \<open>r\<close> that is not the last (\<open>r < retries\<close>) it sleeps \<open>5 * r\<close>, and the default of
  \<open>retries\<close> is 5.
\<close>

theorem RevGitPushWithRetry_attempts:
  "fst (RevGitPushWithRetry e retries w) =
     (if \<forall>r\<in>{1..retries}. \<not> attempt_ok e r then Inl GitPushFailed else Inr ()) \<and>
   trace (snd (RevGitPushWithRetry e retries w)) =
     trace w @ concat (map (attempt_events e retries) (attempted e [1..retries])) \<and>
   length (attempted e [1..retries]) \<le> nat retries \<and>
   retries_default = 5"
proof -
  have l: "length (attempted e [1..retries]) \<le> nat retries"
    using length_attempted[of e "[1..retries]"] by simp
  show ?thesis
    using l by (simp add: RevGitPushWithRetry_def py_range_def push_loop_result push_loop_trace
        retries_default_def)
qed

lemma upto_1_5: "[1..5::int] = [1,2,3,4,5]"
  by (simp add: upto_rec1)

text \<open>
  Claim C7 with \<open>retries\<close> 5, first when every command fails: five attempts, the sleeps 5,
  10, 15 and 20 between them, none after the last, and GitPushFailed; then when the push
  succeeds at the third attempt: three attempts, the sleeps 5 and 10, and a normal return.
\<close>

theorem RevGitPushWithRetry_attempts_witness:
  "fst (RevGitPushWithRetry env0 5 world0) = Inl GitPushFailed \<and>
   trace (snd (RevGitPushWithRetry env0 5 world0)) =
     [Run ''repo sync .'' None, Sleep 5, Run ''repo sync .'' None, Sleep 10,
      Run ''repo sync .'' None, Sleep 15, Run ''repo sync .'' None, Sleep 20,
      Run ''repo sync .'' None] \<and>
   fst (RevGitPushWithRetry env_push3 5 world0) = Inr () \<and>
   trace (snd (RevGitPushWithRetry env_push3 5 world0)) =
     [Run ''repo sync .'' None, Run ''git push'' None, Sleep 5,
      Run ''repo sync .'' None, Run ''git push'' None, Sleep 10,
      Run ''repo sync .'' None, Run ''git push'' None]"
proof -
  have a: "attempted env0 [1..5] = [1,2,3,4,5]"
    by (simp add: upto_1_5 attempted_def attempt_ok_def env0_def)
  have ok: "\<And>r. \<not> attempt_ok env0 r" by (simp add: attempt_ok_def env0_def)
  note t = RevGitPushWithRetry_attempts[of env0 5 world0]
  have r1: "fst (RevGitPushWithRetry env0 5 world0) = Inl GitPushFailed"
    using t[THEN conjunct1] ok by simp
  have r2: "trace (snd (RevGitPushWithRetry env0 5 world0)) =
     [Run ''repo sync .'' None, Sleep 5, Run ''repo sync .'' None, Sleep 10,
      Run ''repo sync .'' None, Sleep 15, Run ''repo sync .'' None, Sleep 20,
      Run ''repo sync .'' None]"
    unfolding t[THEN conjunct2, THEN conjunct1] a
    by (simp add: attempt_events_def attempt_ok_def env0_def world0_def)
  have a3: "attempted env_push3 [1..5] = [1,2,3]"
    by (simp add: upto_1_5 attempted_def attempt_ok_def env_push3_def env0_def)
  have ok3: "attempt_ok env_push3 3" by (simp add: attempt_ok_def env_push3_def env0_def)
  note t3 = RevGitPushWithRetry_attempts[of env_push3 5 world0]
  have r3: "fst (RevGitPushWithRetry env_push3 5 world0) = Inr ()"
  proof -
    have "\<not> (\<forall>r\<in>{1..5::int}. \<not> attempt_ok env_push3 r)" using ok3 by auto
    then show ?thesis using t3[THEN conjunct1] by simp
  qed
  have r4: "trace (snd (RevGitPushWithRetry env_push3 5 world0)) =
     [Run ''repo sync .'' None, Run ''git push'' None, Sleep 5,
      Run ''repo sync .'' None, Run ''git push'' None, Sleep 10,
      Run ''repo sync .'' None, Run ''git push'' None]"
    unfolding t3[THEN conjunct2, THEN conjunct1] a3
    by (simp add: attempt_events_def attempt_ok_def env_push3_def env0_def world0_def)
  show ?thesis by (intro conjI r1 r2 r3 r4)
qed

lemma only_runs_refl: "only_runs w w"
  by (auto simp: only_runs_def intro: exI[of _ "[]"])

lemma only_runs_trans: "only_runs w w' \<Longrightarrow> only_runs w' w'' \<Longrightarrow> only_runs w w''"
proof -
  assume "only_runs w w'" "only_runs w' w''"
  then obtain t t' where t: "w' = w\<lparr>trace := trace w @ t\<rparr>" "\<forall>ev\<in>set t. is_run ev"
    and t': "w'' = w'\<lparr>trace := trace w' @ t'\<rparr>" "\<forall>ev\<in>set t'. is_run ev"
    by (auto simp: only_runs_def)
  then have "w'' = w\<lparr>trace := trace w @ (t @ t')\<rparr>" "\<forall>ev\<in>set (t @ t'). is_run ev" by auto
  then show ?thesis unfolding only_runs_def by blast
qed

lemma RunCommand_snd: "snd (RunCommand e cmd dir a w) = w\<lparr>trace := trace w @ [Run cmd dir]\<rparr>"
  by (simp add: RunCommand_def log_event_def)

lemma RunCommand_fst:
  "fst (RunCommand e cmd dir a w) = (if run_ok e cmd a then Inr () else Inl RunCommandError)"
  by (simp add: RunCommand_def)

lemma RunCommand_only_runs: "only_runs w (snd (RunCommand e cmd dir a w))"
  unfolding RunCommand_snd only_runs_def by (rule exI[of _ "[Run cmd dir]"]) simp

lemma upto_0_2: "[0..2::int] = [0, 1, 2]"
  by (simp add: upto_rec1)

lemma RetryRun_loop_fst:
  "fst (RetryRun_loop e cmd dir as w) \<longleftrightarrow> (\<exists>a\<in>set as. run_ok e cmd a)"
  by (induction as arbitrary: w) (auto simp: RunCommand_def)

lemma RetryRun_loop_only_runs: "only_runs w (snd (RetryRun_loop e cmd dir as w))"
proof (induction as arbitrary: w)
  case Nil
  then show ?case by (simp add: only_runs_refl)
next
  case (Cons a as)
  show ?case
  proof (cases "run_ok e cmd a")
    case True
    then show ?thesis using RunCommand_only_runs[of w e cmd dir a] by (simp add: RunCommand_def)
  next
    case False
    then have "snd (RetryRun_loop e cmd dir (a # as) w) =
               snd (RetryRun_loop e cmd dir as (snd (RunCommand e cmd dir a w)))"
      by (simp add: RunCommand_def)
    then show ?thesis
      using only_runs_trans[OF RunCommand_only_runs Cons] by simp
  qed
qed

lemma RetryRun_loop_attempted:
  "as \<noteq> [] \<Longrightarrow> Run cmd dir \<in> set (trace (snd (RetryRun_loop e cmd dir as w)))"
proof (cases as)
  case Nil
  then show "as \<noteq> [] \<Longrightarrow> ?thesis" by simp
next
  case (Cons a as')
  let ?w1 = "snd (RunCommand e cmd dir a w)"
  have in1: "Run cmd dir \<in> set (trace ?w1)" by (simp add: RunCommand_snd)
  show ?thesis
  proof (cases "run_ok e cmd a")
    case True
    then show ?thesis using in1 Cons by (simp add: RunCommand_def)
  next
    case False
    then have s: "snd (RetryRun_loop e cmd dir as w) = snd (RetryRun_loop e cmd dir as' ?w1)"
      using Cons by (simp add: RunCommand_def)
    from RetryRun_loop_only_runs[of ?w1 e cmd dir as']
    obtain t where "snd (RetryRun_loop e cmd dir as' ?w1) = ?w1\<lparr>trace := trace ?w1 @ t\<rparr>"
      by (auto simp: only_runs_def)
    then show ?thesis using in1 s by simp
  qed
qed

lemma RetryRun_fst:
  "fst (RetryRun e cmd dir w) \<longleftrightarrow> run_ok e cmd 0 \<or> run_ok e cmd 1 \<or> run_ok e cmd 2"
  by (simp add: RetryRun_def py_range_def RETRIES_def upto_0_2 RetryRun_loop_fst
      del: RetryRun_loop.simps)

lemma RetryRun_only_runs: "only_runs w (snd (RetryRun e cmd dir w))"
  by (simp add: RetryRun_def RetryRun_loop_only_runs)

lemma RetryRun_attempted: "Run cmd dir \<in> set (trace (snd (RetryRun e cmd dir w)))"
  by (simp add: RetryRun_def py_range_def RETRIES_def upto_0_2 RetryRun_loop_attempted
      del: RetryRun_loop.simps)

lemma GsUpload_fst: "fst (GsUpload e p w) = (if upload_fails e p then Some p else None)"
proof -
  obtain l r where p: "p = (l, r)" by (cases p)
  obtain b w' where rr: "RetryRun e (gs_cmd (l, r)) None w = (b, w')" by (cases "RetryRun e (gs_cmd (l, r)) None w")
  then have "b \<longleftrightarrow> \<not> upload_fails e (l, r)"
    using RetryRun_fst[of e "gs_cmd (l, r)" None w] by (auto simp: upload_fails_def)
  then show ?thesis using rr p by (cases b) (simp_all add: GsUpload_def)
qed

lemma GsUpload_snd: "snd (GsUpload e p w) = snd (RetryRun e (gs_cmd p) None w)"
proof -
  obtain l r where p: "p = (l, r)" by (cases p)
  obtain b w' where rr: "RetryRun e (gs_cmd (l, r)) None w = (b, w')" by (cases "RetryRun e (gs_cmd (l, r)) None w")
  then show ?thesis using p by (cases b) (simp_all add: GsUpload_def)
qed

lemma map_async_GsUpload_fst:
  "fst (map_async (GsUpload e) ps w) = map (\<lambda>p. if upload_fails e p then Some p else None) ps"
proof (induction ps arbitrary: w)
  case Nil
  then show ?case by simp
next
  case (Cons p ps)
  then show ?case
    using GsUpload_fst[of e p w]
    by (simp add: case_prod_beta)
qed

lemma map_async_GsUpload_only_runs: "only_runs w (snd (map_async (GsUpload e) ps w))"
proof (induction ps arbitrary: w)
  case Nil
  then show ?case by (simp add: only_runs_refl)
next
  case (Cons p ps)
  have "only_runs w (snd (GsUpload e p w))"
    by (simp add: GsUpload_snd RetryRun_only_runs)
  from only_runs_trans[OF this Cons[of "snd (GsUpload e p w)"]]
  show ?case by (simp add: case_prod_beta)
qed

lemma trace_only_runs_mono: "only_runs w w' \<Longrightarrow> ev \<in> set (trace w) \<Longrightarrow> ev \<in> set (trace w')"
  by (auto simp: only_runs_def)

lemma map_async_GsUpload_attempted:
  "p \<in> set ps \<Longrightarrow> Run (gs_cmd p) None \<in> set (trace (snd (map_async (GsUpload e) ps w)))"
proof (induction ps arbitrary: w)
  case Nil
  then show ?case by simp
next
  case (Cons q ps)
  let ?w1 = "snd (GsUpload e q w)"
  have s: "snd (map_async (GsUpload e) (q # ps) w) = snd (map_async (GsUpload e) ps ?w1)"
    by (simp add: case_prod_beta)
  show ?case
  proof (cases "p = q")
    case True
    have "Run (gs_cmd p) None \<in> set (trace ?w1)"
      using True by (simp add: GsUpload_snd RetryRun_attempted)
    then show ?thesis
      unfolding s using trace_only_runs_mono[OF map_async_GsUpload_only_runs] by blast
  next
    case False
    then show ?thesis unfolding s using Cons by simp
  qed
qed

lemma RemoteUpload_fst:
  "fst (RemoteUpload e fs w) = (\<lambda>p. if upload_fails e p then Some p else None) ` set fs"
  using map_async_GsUpload_fst[of e fs w]
  by (simp add: RemoteUpload_def case_prod_beta)

lemma RemoteUpload_snd: "snd (RemoteUpload e fs w) = snd (map_async (GsUpload e) fs w)"
  by (simp add: RemoteUpload_def case_prod_beta)

text \<open>
  Claim C5, amended: the result of RemoteUpload without the marker \<^verbatim>\<open>None\<close> is exactly the
  set of pairs whose transfer command failed at all three attempts; the marker \<^verbatim>\<open>None\<close> is
  in the result exactly when at least one pair succeeded; and the command of every pair is
  run, whatever happens to the other pairs.
\<close>

theorem RemoteUpload_failed_set:
  "fst (RemoteUpload e fs w) - {None} = Some ` {p \<in> set fs. upload_fails e p} \<and>
   (None \<in> fst (RemoteUpload e fs w) \<longleftrightarrow> (\<exists>p\<in>set fs. \<not> upload_fails e p)) \<and>
   (\<forall>p\<in>set fs. Run (gs_cmd p) None \<in> set (trace (snd (RemoteUpload e fs w))))"
proof (intro conjI)
  show "fst (RemoteUpload e fs w) - {None} = Some ` {p \<in> set fs. upload_fails e p}"
    unfolding RemoteUpload_fst by (auto split: if_splits)
  show "None \<in> fst (RemoteUpload e fs w) \<longleftrightarrow> (\<exists>p\<in>set fs. \<not> upload_fails e p)"
    unfolding RemoteUpload_fst by (auto split: if_splits)
  show "\<forall>p\<in>set fs. Run (gs_cmd p) None \<in> set (trace (snd (RemoteUpload e fs w)))"
    by (simp add: RemoteUpload_snd map_async_GsUpload_attempted)
qed

lemmas run_ev = RemoteUpload_def GsUpload_def RetryRun_def py_range_def RETRIES_def upto_0_2
  RunCommand_def log_event_def gs_cmd_def GSUTIL_BIN_def env0_def env_ok_def world0_def

text \<open>
  Claim C5 says that RemoteUpload returns exactly the failing subset, the empty set when
  every pair succeeds.  With one pair whose upload succeeds the result is the set that holds
  \<^verbatim>\<open>None\<close>, which \<^verbatim>\<open>_GsUpload\<close> returns for a successful upload; it is not empty.
\<close>

theorem RemoteUpload_all_succeed_counterexample:
  "\<not> upload_fails env_ok (''/p/a.tbz2'', ''gs://b/a.tbz2'') \<and>
   fst (RemoteUpload env_ok [(''/p/a.tbz2'', ''gs://b/a.tbz2'')] world0) = {None} \<and>
   fst (RemoteUpload env_ok [(''/p/a.tbz2'', ''gs://b/a.tbz2'')] world0) \<noteq> {}"
  by (simp add: run_ev upload_fails_def)

text \<open>
  The amended claim C5 with one pair whose upload fails three times.
\<close>

theorem RemoteUpload_failed_set_witness:
  "upload_fails env0 (''/p/a.tbz2'', ''gs://b/a.tbz2'') \<and>
   fst (RemoteUpload env0 [(''/p/a.tbz2'', ''gs://b/a.tbz2'')] world0) - {None} =
     {Some (''/p/a.tbz2'', ''gs://b/a.tbz2'')} \<and>
   None \<notin> fst (RemoteUpload env0 [(''/p/a.tbz2'', ''gs://b/a.tbz2'')] world0) \<and>
   Run (gs_cmd (''/p/a.tbz2'', ''gs://b/a.tbz2'')) None
     \<in> set (trace (snd (RemoteUpload env0 [(''/p/a.tbz2'', ''gs://b/a.tbz2'')] world0)))"
proof -
  have f: "upload_fails env0 (''/p/a.tbz2'', ''gs://b/a.tbz2'')"
    by (simp add: upload_fails_def env0_def)
  note t = RemoteUpload_failed_set[of env0 "[(''/p/a.tbz2'', ''gs://b/a.tbz2'')]" world0]
  have c1: "fst (RemoteUpload env0 [(''/p/a.tbz2'', ''gs://b/a.tbz2'')] world0) - {None} =
     {Some (''/p/a.tbz2'', ''gs://b/a.tbz2'')}"
    using t[THEN conjunct1] f by auto
  have c2: "None \<notin> fst (RemoteUpload env0 [(''/p/a.tbz2'', ''gs://b/a.tbz2'')] world0)"
    using t[THEN conjunct2, THEN conjunct1] f by simp
  have c3: "Run (gs_cmd (''/p/a.tbz2'', ''gs://b/a.tbz2'')) None
     \<in> set (trace (snd (RemoteUpload env0 [(''/p/a.tbz2'', ''gs://b/a.tbz2'')] world0)))"
    using t[THEN conjunct2, THEN conjunct2] by simp
  show ?thesis by (intro conjI f c1 c2 c3)
qed

section \<open>Upload failure and configuration\<close>

lemma and_then_Inl:
  "fst (and_then m f) = Inl x \<Longrightarrow>
     fst m = Inl x \<or> (\<exists>a. fst m = Inr a \<and> fst (f a (snd m)) = Inl x)"
  by (cases m) (auto simp: and_then_def split: sum.splits)

lemma and_then_Inr: "fst m = Inr a \<Longrightarrow> and_then m f = f a (snd m)"
  by (cases m) (auto simp: and_then_def)

lemma and_then_Inl_eq: "fst m = Inl x \<Longrightarrow> and_then m f = (Inl x, snd m)"
  by (cases m) (auto simp: and_then_def)

lemma RunCommand_not_UploadFailed: "fst (RunCommand e cmd dir a w) \<noteq> Inl UploadFailed"
  by (simp add: RunCommand_def)

lemma chdir_not_UploadFailed: "fst (chdir e d w) \<noteq> Inl UploadFailed"
  by (simp add: chdir_def)

lemma UpdateLocalFile_at_not_UploadFailed:
  "fst (UpdateLocalFile_at e f v k w) \<noteq> Inl UploadFailed"
  by (simp add: UpdateLocalFile_at_def split: option.splits)

lemma RevGitPushWithRetry_not_UploadFailed:
  "fst (RevGitPushWithRetry e n w) \<noteq> Inl UploadFailed"
  by (simp add: RevGitPushWithRetry_def push_loop_result)

lemma RevGitFile_not_UploadFailed:
  "fst (RevGitFile e filename v retries k w) \<noteq> Inl UploadFailed"
proof
  assume a: "fst (RevGitFile e filename v retries k w) = Inl UploadFailed"
  show False
    using a unfolding RevGitFile_def Let_def case_prod_beta
    by (auto dest!: and_then_Inl
        simp: RunCommand_not_UploadFailed chdir_not_UploadFailed
          UpdateLocalFile_at_not_UploadFailed RevGitPushWithRetry_not_UploadFailed)
qed

lemma UpdateBinhostConfFile_not_UploadFailed:
  "fst (UpdateBinhostConfFile e path k v w) \<noteq> Inl UploadFailed"
proof
  assume a: "fst (UpdateBinhostConfFile e path k v w) = Inl UploadFailed"
  show False
    using a unfolding UpdateBinhostConfFile_def Let_def
    by (auto dest!: and_then_Inl
        simp: RunCommand_not_UploadFailed UpdateLocalFile_at_not_UploadFailed)
qed

lemma run_cmds_only_runs: "only_runs w (snd (run_cmds e cmds dir w))"
proof (induction cmds arbitrary: w)
  case Nil
  then show ?case by (simp add: only_runs_refl)
next
  case (Cons c cs)
  obtain b w1 where r: "RetryRun e c (Some dir) w = (b, w1)" by (cases "RetryRun e c (Some dir) w")
  then have o: "only_runs w w1" using RetryRun_only_runs[of w e c "Some dir"] by simp
  show ?case
  proof (cases b)
    case True
    then show ?thesis using r only_runs_trans[OF o Cons[of w1]] by simp
  next
    case False
    then show ?thesis using r o by simp
  qed
qed

lemma UploadPrebuilt_rsync_only_runs:
  "only_runs w (snd (UploadPrebuilt_rsync e pp rl ups tmp w))"
  by (simp add: UploadPrebuilt_rsync_def Let_def run_cmds_only_runs only_runs_refl
      split: option.splits)

lemma UploadPrebuilt_gs_only_runs:
  "only_runs w (snd (UploadPrebuilt_gs e pp rl ups tmp w))"
proof (cases "GenerateUploadDict e w pp rl ups")
  case (Inl err)
  then show ?thesis by (simp add: UploadPrebuilt_gs_def only_runs_refl)
next
  case (Inr fs)
  let ?fs = "AList.update tmp (rstrip (\<lambda>c. c = CHR ''/'') rl @ ''/Packages'') fs"
  have "only_runs w (snd (RemoteUpload e ?fs w))"
    by (simp add: RemoteUpload_snd map_async_GsUpload_only_runs)
  then show ?thesis
    using Inr by (simp add: UploadPrebuilt_gs_def Let_def case_prod_beta)
qed

lemma upload_step_only_runs: "only_runs w (snd (upload_step e ul pp rl ups tmp w))"
  by (simp add: upload_step_def UploadPrebuilt_gs_only_runs UploadPrebuilt_rsync_only_runs)

lemma config_step_not_UploadFailed:
  "fst (and_then (if gs then RevGitFile e gf uv n k w else (Inr (), w))
         (\<lambda>_ w. if sbc then UpdateBinhostConfFile e bc k uv w else (Inr (), w)))
     \<noteq> Inl UploadFailed"
proof
  assume "fst (and_then (if gs then RevGitFile e gf uv n k w else (Inr (), w))
         (\<lambda>_ w. if sbc then UpdateBinhostConfFile e bc k uv w else (Inr (), w))) = Inl UploadFailed"
  from and_then_Inl[OF this] show False
    by (auto simp: RevGitFile_not_UploadFailed UpdateBinhostConfFile_not_UploadFailed
        split: if_splits)
qed

lemma UploadPrebuilt_failed_only_runs:
  assumes "UploadPrebuilt e build_path upload_location version binhost_base_url board git_sync
             git_sync_retries key pkg_indexes sync_binhost_conf w = (Inl UploadFailed, w')"
  shows "only_runs w w'"
proof (cases "target_paths build_path version board")
  case (Inl err)
  then show ?thesis using assms by (simp add: UploadPrebuilt_def only_runs_refl)
next
  case (Inr tp)
  obtain pp us gf bc where tp: "tp = (pp, us, gf, bc)" by (cases tp)
  let ?rl = "rstrip (\<lambda>c. c = CHR ''/'') upload_location @ ''/'' @ us"
  let ?ups = "ResolveDuplicateUploads e
      (RemoveFilteredPackages e (ShouldFilterPackage w) (GrabLocalPackageIndex e pp)) pkg_indexes"
  let ?up = "upload_step e upload_location pp ?rl ?ups (tmp_packages_file_name e) w"
  let ?cfg = "\<lambda>(u::unit) w. and_then
       (if git_sync then RevGitFile e gf (binhost_base_url @ ''/'' @ us @ ''/'') git_sync_retries key w
        else (Inr (), w))
       (\<lambda>_ w. if sync_binhost_conf
               then UpdateBinhostConfFile e bc key (binhost_base_url @ ''/'' @ us @ ''/'') w
               else (Inr (), w))"
  have u: "UploadPrebuilt e build_path upload_location version binhost_base_url board git_sync
             git_sync_retries key pkg_indexes sync_binhost_conf w = and_then ?up ?cfg"
    unfolding UploadPrebuilt_def Let_def upload_step_def Inr tp
    by (simp only: sum.case prod.case)
  show ?thesis
  proof (cases "fst ?up")
    case (Inl err)
    have e1: "and_then ?up ?cfg = (Inl err, snd ?up)" by (rule and_then_Inl_eq[OF Inl])
    from assms[unfolded u e1] have "w' = snd ?up" by (simp only: prod.inject)
    then show ?thesis using upload_step_only_runs by (simp only:)
  next
    case (Inr a)
    have e2: "and_then ?up ?cfg = ?cfg a (snd ?up)" by (rule and_then_Inr[OF Inr])
    from assms[unfolded u e2]
    have "fst (?cfg a (snd ?up)) = Inl UploadFailed" by (simp only: fst_conv)
    then show ?thesis using config_step_not_UploadFailed by blast
  qed
qed

text \<open>
  Claim C8: when UploadPrebuilt raises UploadFailed, for either transport, the files, the
  directories and the working directory are as before the call, and what the call added to
  the log are commands only: neither RevGitFile nor UpdateBinhostConfFile was entered.
\<close>

theorem UploadPrebuilt_failure_no_config:
  assumes "UploadPrebuilt e build_path upload_location version binhost_base_url board git_sync
             git_sync_retries key pkg_indexes sync_binhost_conf w = (Inl UploadFailed, w')"
  shows "files w' = files w \<and> dirs w' = dirs w \<and> cwd w' = cwd w \<and>
         (\<exists>t. trace w' = trace w @ t \<and>
              Enter ''RevGitFile'' \<notin> set t \<and> Enter ''UpdateBinhostConfFile'' \<notin> set t \<and>
              (\<forall>ev\<in>set t. is_run ev))"
proof -
  from UploadPrebuilt_failed_only_runs[OF assms]
  obtain t where t: "w' = w\<lparr>trace := trace w @ t\<rparr>" "\<forall>ev\<in>set t. is_run ev"
    by (auto simp: only_runs_def)
  then have "Enter ''RevGitFile'' \<notin> set t" "Enter ''UpdateBinhostConfFile'' \<notin> set t" by auto
  with t show ?thesis by auto
qed

text \<open>
  Claim C9: when filtering is enabled and the scan of the private-overlay directory yields no
  filter, main (which performs the scan once the build path and the upload location are
  given) raises FiltersEmpty, and nothing has been added to the log at that point: no
  command was run, no index fetched, no file changed.
\<close>

theorem main_FiltersEmpty_first:
  assumes "opt_filters options"
    and "truthy (opt_build_path options)" and "truthy (opt_upload options)"
    and "scan_filters (ListFiles e
           (os_path_join (str (opt_build_path options)) [PRIVATE_OVERLAY_DIR])) = []"
  shows "fst (main e options w) = Inl FiltersEmpty \<and>
         trace (snd (main e options w)) = trace w \<and>
         files (snd (main e options w)) = files w \<and>
         FILTER_PACKAGES (snd (main e options w)) = FILTER_PACKAGES w"
  using assms
  by (simp add: main_def and_then_def LoadPrivateFilters_def Let_def)

lemmas world_ev = UploadPrebuilt_def target_paths_def truthy_def str_def
  os_path_join_def path_join2_def HOST_PACKAGES_PATH_def HOST_TARGET_def PREBUILT_MAKE_CONF_def
  PREBUILT_BASE_DIR_def BINHOST_CONF_DIR_def startswith_def rstrip_def
  UploadPrebuilt_gs_def UploadPrebuilt_rsync_def GenerateUploadDict_def split1_def and_then_def
  RemoteUpload_def GsUpload_def RetryRun_def py_range_def RETRIES_def upto_0_2
  RunCommand_def log_event_def gs_cmd_def GSUTIL_BIN_def env0_def env_ok_def world0_def Let_def

text \<open>
  Claim C9 at options that ask for a host upload with filtering, where the scan finds no file.
\<close>

theorem main_FiltersEmpty_first_witness:
  "opt_filters opts0 \<and> truthy (opt_build_path opts0) \<and> truthy (opt_upload opts0) \<and>
   scan_filters (ListFiles env0 (os_path_join (str (opt_build_path opts0)) [PRIVATE_OVERLAY_DIR])) = [] \<and>
   fst (main env0 opts0 world0) = Inl FiltersEmpty \<and>
   trace (snd (main env0 opts0 world0)) = []"
proof -
  have h1: "opt_filters opts0" by (simp add: opts0_def)
  have h2: "truthy (opt_build_path opts0)" by (simp add: opts0_def truthy_def)
  have h3: "truthy (opt_upload opts0)" by (simp add: opts0_def truthy_def)
  have h4: "scan_filters (ListFiles env0
      (os_path_join (str (opt_build_path opts0)) [PRIVATE_OVERLAY_DIR])) = []"
    by (simp add: env0_def)
  note t = main_FiltersEmpty_first[OF h1 h2 h3 h4, of world0]
  have c1: "fst (main env0 opts0 world0) = Inl FiltersEmpty" using t by (rule conjunct1)
  have c2: "trace (snd (main env0 opts0 world0)) = []"
    using t[THEN conjunct2, THEN conjunct1] by (simp add: world0_def)
  show ?thesis by (intro conjI h1 h2 h3 h4 c1 c2)
qed

lemma main_without_filters_uploads:
  "trace (snd (main env_ok (opts0\<lparr>opt_filters := False, opt_git_sync := False,
                                   opt_sync_binhost_conf := False\<rparr>) world0)) =
     [Fetch ''http://old'',
      Run (''/b/third_party/gsutil/gsutil cp -a public-read /tmp/Packages '' @
           ''gs://bucket/host/amd64/03.11.26.120000/packages/Packages'') None]"
  by (simp add: main_def opts0_def GetVersion_def retries_default_def world_ev)

text \<open>
  Claim C8 at a host upload in which every command fails, once to a \<^verbatim>\<open>gs://\<close> location and
  once to a remote-shell location, both with git sync and binhost configuration sync
  requested.
\<close>

theorem UploadPrebuilt_failure_no_config_witness:
  "UploadPrebuilt env0 ''/b'' ''gs://bucket'' ''v1'' ''http://h'' None True 5
       ''PORTAGE_BINHOST'' [] True world0 =
     (Inl UploadFailed,
      world0\<lparr>trace := replicate 3 (Run (''/b/third_party/gsutil/gsutil cp -a public-read '' @
         ''/tmp/Packages gs://bucket/host/amd64/v1/packages/Packages'') None)\<rparr>) \<and>
   files (world0\<lparr>trace := replicate 3 (Run (''/b/third_party/gsutil/gsutil cp -a public-read '' @
         ''/tmp/Packages gs://bucket/host/amd64/v1/packages/Packages'') None)\<rparr>) = files world0 \<and>
   UploadPrebuilt env0 ''/b'' ''host:/d'' ''v1'' ''http://h'' None True 5
       ''PORTAGE_BINHOST'' [] True world0 =
     (Inl UploadFailed,
      world0\<lparr>trace := replicate 3 (Run ''ssh host mkdir -p /d/host/amd64/v1/packages''
         (Some ''/b/chroot/var/lib/portage/pkgs''))\<rparr>) \<and>
   files (world0\<lparr>trace := replicate 3 (Run ''ssh host mkdir -p /d/host/amd64/v1/packages''
         (Some ''/b/chroot/var/lib/portage/pkgs''))\<rparr>) = files world0"
proof -
  have h1: "UploadPrebuilt env0 ''/b'' ''gs://bucket'' ''v1'' ''http://h'' None True 5
       ''PORTAGE_BINHOST'' [] True world0 =
     (Inl UploadFailed,
      world0\<lparr>trace := replicate 3 (Run (''/b/third_party/gsutil/gsutil cp -a public-read '' @
         ''/tmp/Packages gs://bucket/host/amd64/v1/packages/Packages'') None)\<rparr>)"
    by (simp add: world_ev numeral_3_eq_3)
  have h2: "UploadPrebuilt env0 ''/b'' ''host:/d'' ''v1'' ''http://h'' None True 5
       ''PORTAGE_BINHOST'' [] True world0 =
     (Inl UploadFailed,
      world0\<lparr>trace := replicate 3 (Run ''ssh host mkdir -p /d/host/amd64/v1/packages''
         (Some ''/b/chroot/var/lib/portage/pkgs''))\<rparr>)"
    by (simp add: world_ev numeral_3_eq_3)
  note c1 = UploadPrebuilt_failure_no_config[OF h1, THEN conjunct1]
  note c2 = UploadPrebuilt_failure_no_config[OF h2, THEN conjunct1]
  show ?thesis by (intro conjI h1 h2 c1 c2)
qed

end
